theory Spec2Isabelle
  imports Main "HOL-Library.Sublist"
begin

section \<open>Python string operations used by the scraper\<close>

text \<open>
  A Python \<open>str\<close> is modelled by its UTF-8 encoding: a \<open>string\<close> whose \<open>char\<close>s are
  the bytes. An ASCII character is one byte, so a test or a search for an ASCII pattern
  reads the same on the bytes as on the characters. The operations below are the ones
  \<open>main.py\<close> applies to URLs and page text: \<open>s.startswith(p)\<close>, \<open>p in s\<close>,
  \<open>s.replace(old, new)\<close>, \<open>s.split(sep)[0]\<close>, \<open>s[n:]\<close>, \<open>sep.join(xs)\<close>,
  \<open>urllib.parse.unquote\<close> and \<open>re.search\<close> with the one pattern the source uses.
\<close>

definition startswith :: "string \<Rightarrow> string \<Rightarrow> bool" where
  "startswith s p = (take (length p) s = p)"

fun contains :: "string \<Rightarrow> string \<Rightarrow> bool" where
  "contains p [] = (p = [])"
| "contains p (c # cs) = (startswith (c # cs) p \<or> contains p cs)"

text \<open>
  \<open>s.replace(old, new)\<close>: every non-overlapping occurrence of \<open>old\<close>, found from the
  left, is replaced. The source calls it with non-empty patterns only; for the empty
  pattern the model leaves the string as it is.
\<close>

function replace_all :: "string \<Rightarrow> string \<Rightarrow> string \<Rightarrow> string" where
  "replace_all old new [] = []"
| "replace_all old new (c # cs) =
     (if old \<noteq> [] \<and> startswith (c # cs) old
      then new @ replace_all old new (drop (length old) (c # cs))
      else c # replace_all old new cs)"
  by pat_completeness auto
termination
  by (relation "measure (\<lambda>(old, new, s). length s)") auto

text \<open>\<open>s.split(sep)[0]\<close>: the part of \<open>s\<close> before the first occurrence of \<open>sep\<close>.\<close>

fun split_first :: "string \<Rightarrow> string \<Rightarrow> string" where
  "split_first sep [] = []"
| "split_first sep (c # cs) =
     (if startswith (c # cs) sep then [] else c # split_first sep cs)"

fun join :: "string \<Rightarrow> string list \<Rightarrow> string" where
  "join sep [] = []"
| "join sep [x] = x"
| "join sep (x # y # ys) = x @ sep @ join sep (y # ys)"

text \<open>
  \<open>s[n:]\<close> drops \<open>n\<close> characters: each is a byte that is not a continuation byte,
  with the continuation bytes that follow it.
\<close>

definition is_ascii :: "char \<Rightarrow> bool" where
  "is_ascii c = ((of_char c :: nat) < 128)"

definition is_cont :: "char \<Rightarrow> bool" where
  "is_cont c = (128 \<le> (of_char c :: nat) \<and> (of_char c :: nat) \<le> 191)"

fun drop_chars :: "nat \<Rightarrow> string \<Rightarrow> string" where
  "drop_chars 0 s = s"
| "drop_chars (Suc n) [] = []"
| "drop_chars (Suc n) (c # cs) = drop_chars n (dropWhile is_cont cs)"

text \<open>
  \<open>urllib.parse.unquote\<close>. In every run of ASCII characters, a \<open>%\<close> followed by two
  hexadecimal digits becomes the byte with that value and any other \<open>%\<close> stays
  (\<open>percent_decode\<close>); the bytes of the run are then decoded as UTF-8 with
  \<open>errors='replace'\<close>, which puts U+FFFD, in UTF-8 the bytes EF BF BD, in the place of
  every maximal part that is not the beginning of a well-formed sequence
  (\<open>utf8_replace\<close>). Characters outside ASCII are copied.
\<close>

definition hex_digit :: "char \<Rightarrow> nat option" where
  "hex_digit c =
     (let n = (of_char c :: nat) in
      if 48 \<le> n \<and> n \<le> 57 then Some (n - 48)
      else if 65 \<le> n \<and> n \<le> 70 then Some (n - 55)
      else if 97 \<le> n \<and> n \<le> 102 then Some (n - 87)
      else None)"

fun percent_decode :: "string \<Rightarrow> string" where
  "percent_decode (c # a # b # rest) =
     (if c = CHR ''%'' then
        (case (hex_digit a, hex_digit b) of
           (Some h, Some l) \<Rightarrow> char_of (16 * h + l) # percent_decode rest
         | _ \<Rightarrow> c # percent_decode (a # b # rest))
      else c # percent_decode (a # b # rest))"
| "percent_decode (c # rest) = c # percent_decode rest"
| "percent_decode [] = []"

definition replacement :: string where
  "replacement = [CHR 0xEF, CHR 0xBF, CHR 0xBD]"

text \<open>
  The second byte of a sequence of three or four bytes has a narrower range after the
  lead bytes E0, ED, F0 and F4 (no overlong form, no surrogate, nothing above U+10FFFF).
\<close>

definition second_ok :: "char \<Rightarrow> char \<Rightarrow> bool" where
  "second_ok b c =
     (let n = (of_char b :: nat); m = (of_char c :: nat)
      in (if n = 224 then 160 else if n = 240 then 144 else 128) \<le> m
         \<and> m \<le> (if n = 237 then 159 else if n = 244 then 143 else 191))"

fun utf8_replace :: "string \<Rightarrow> string" where
  "utf8_replace [] = []"
| "utf8_replace (b # rest) =
     (let n = (of_char b :: nat) in
      if n < 128 then b # utf8_replace rest
      else if 194 \<le> n \<and> n \<le> 223 then
        (case rest of
           [] \<Rightarrow> replacement
         | c # r1 \<Rightarrow>
             if is_cont c then b # c # utf8_replace r1 else replacement @ utf8_replace rest)
      else if 224 \<le> n \<and> n \<le> 239 then
        (case rest of
           [] \<Rightarrow> replacement
         | c # r1 \<Rightarrow>
             if second_ok b c then
               (case r1 of
                  [] \<Rightarrow> replacement
                | d # r2 \<Rightarrow>
                    if is_cont d then b # c # d # utf8_replace r2
                    else replacement @ utf8_replace r1)
             else replacement @ utf8_replace rest)
      else if 240 \<le> n \<and> n \<le> 244 then
        (case rest of
           [] \<Rightarrow> replacement
         | c # r1 \<Rightarrow>
             if second_ok b c then
               (case r1 of
                  [] \<Rightarrow> replacement
                | d # r2 \<Rightarrow>
                    if is_cont d then
                      (case r2 of
                         [] \<Rightarrow> replacement
                       | e # r3 \<Rightarrow>
                           if is_cont e then b # c # d # e # utf8_replace r3
                           else replacement @ utf8_replace r2)
                    else replacement @ utf8_replace r1)
             else replacement @ utf8_replace rest)
      else replacement @ utf8_replace rest)"

function unquote :: "string \<Rightarrow> string" where
  "unquote [] = []"
| "unquote (c # cs) =
     (if is_ascii c
      then utf8_replace (percent_decode (takeWhile is_ascii (c # cs)))
           @ unquote (dropWhile is_ascii cs)
      else c # unquote cs)"
  by pat_completeness auto
termination
  by (relation "measure length") (auto simp: length_dropWhile_le less_Suc_eq_le)

text \<open>
  \<open>re.search(r'(https?://[^&]+)', s)\<close>: the leftmost position where \<open>http://\<close> or
  \<open>https://\<close> is followed by at least one character other than \<open>&\<close>; group 1 is the
  scheme together with the longest run of such characters.
\<close>

definition url_match_here :: "string \<Rightarrow> string option" where
  "url_match_here s =
     (if startswith s ''https://'' then
        (let run = takeWhile (\<lambda>c. c \<noteq> CHR ''&'') (drop 8 s)
         in if run = [] then None else Some (''https://'' @ run))
      else if startswith s ''http://'' then
        (let run = takeWhile (\<lambda>c. c \<noteq> CHR ''&'') (drop 7 s)
         in if run = [] then None else Some (''http://'' @ run))
      else None)"

fun re_search_url :: "string \<Rightarrow> string option" where
  "re_search_url [] = None"
| "re_search_url (c # cs) =
     (case url_match_here (c # cs) of
        Some m \<Rightarrow> Some m
      | None \<Rightarrow> re_search_url cs)"

section \<open>The URL normalizer\<close>

definition BASE_DOMAIN :: string where
  "BASE_DOMAIN = ''https://pdalife.com''"

definition CDN_DOMAIN :: string where
  "CDN_DOMAIN = ''https://mobdisc.com''"

text \<open>\<open>unwrap_google_url\<close>, lines 70-103 of \<open>main.py\<close>.\<close>

definition unwrap_google_url :: "string \<Rightarrow> string" where
  "unwrap_google_url url =
     (if url = [] then []
      else
        let clean = unquote url;
            clean = replace_all ''-com.translate.goog'' ''.com'' clean;
            clean = replace_all ''.translate.goog'' [] clean;
            clean = split_first ''?_x_tr_'' clean;
            clean = split_first ''&_x_tr_'' clean
        in if startswith clean ''/'' then
             (if startswith clean ''/fdl/'' then CDN_DOMAIN @ clean
              else BASE_DOMAIN @ clean)
           else if contains ''https://'' clean \<and> contains ''http'' (drop_chars 8 clean) then
             (case re_search_url clean of
                Some m \<Rightarrow> m
              | None \<Rightarrow> clean)
           else clean)"

section \<open>Documents, responses and the network\<close>

text \<open>
  The HTML parser is an external collaborator. A parsed document is modelled by what the
  source asks of it: the result of each CSS selection that \<open>main.py\<close> performs, and the
  page text. An attribute read with \<open>.get('href')\<close> is \<open>None\<close> when the attribute is
  missing.
\<close>

record anchor =
  href :: "string option"

text \<open>
  A download button of a detail page (\<open>a.game-versions__downloads-button\<close>): its link and
  the stripped text of its \<open>.game-versions__downloads-size\<close> child, if there is one.
\<close>

record link_tag =
  tag_href :: "string option"
  size_text :: "string option"

text \<open>
  A \<open>.catalog-item\<close> of a search page: \<open>title\<close> is \<open>select_one('.catalog-item__title a')\<close>
  as its stripped text and its \<open>href\<close> attribute; \<open>poster\<close> is
  \<open>select_one('.catalog-item__poster img')\<close> as its \<open>src\<close> attribute.
\<close>

record catalog_item =
  title :: "(string \<times> string option) option"
  poster :: "string option option"

record document =
  download_buttons :: "anchor list"
  version_buttons :: "link_tag list"
  accordion_items :: nat
  downloads_list :: "link_tag option list"
  catalog_items :: "catalog_item list"
  page_text :: string
  load_more :: "string option option"

text \<open>
  \<open>download_buttons\<close> is \<open>select('a.b-download__button')\<close>, \<open>version_buttons\<close> is
  \<open>select('a.game-versions__downloads-button')\<close>, \<open>accordion_items\<close> counts
  \<open>select('.accordion-item')\<close>, \<open>downloads_list\<close> has one entry for each
  \<open>.game-versions__downloads-list li\<close>, namely its first download button,
  \<open>page_text\<close> is \<open>get_text()\<close>, and \<open>load_more\<close> is \<open>select_one('.js-load_more')\<close>
  as the value of its \<open>data-max_page\<close> attribute.
\<close>

record response =
  status_code :: int
  final_url :: string
  content :: document

text \<open>
  One \<open>client.get\<close> either raises or gives a response. The transport is external: the
  network is a script that gives, for every URL, the outcomes of the successive attempts
  of a fetch of that URL. A script that runs out stands for a fetch that never returns.
  Every fetch of a URL reads the script of that URL from its start, so fetches do not
  influence each other and the order in which concurrent tasks run does not matter.
\<close>

datatype outcome = Raises | Resp response

type_synonym network = "string \<Rightarrow> outcome list"

section \<open>The resilient fetcher\<close>

datatype step = Retry | Return "document option"

text \<open>One iteration of the \<open>while True\<close> loop of \<open>fetch_until_success\<close>, lines 119-165.\<close>

definition fetch_attempt :: "(document \<Rightarrow> bool) \<Rightarrow> outcome \<Rightarrow> step" where
  "fetch_attempt validator_func out =
     (case out of
        Raises \<Rightarrow> Retry
      | Resp res \<Rightarrow>
          if status_code res = 429 \<or> status_code res \<ge> 500 then Retry
          else if status_code res = 403 \<or> status_code res = 451 then Return None
          else if status_code res = 404 then Return None
          else
            let soup = content res
            in if validator_func soup then Return (Some soup)
               else if contains ''mobdisc'' (final_url res) \<or> download_buttons soup \<noteq> []
               then Return (Some soup)
               else if status_code res = 200 then Return None
               else Retry)"

text \<open>
  The loop, with \<open>attempt_count\<close> as it stands before the iteration. The result is the
  returned value together with the number of attempts made; \<open>None\<close> means that the
  loop does not return on this script.
\<close>

fun fetch_loop :: "(document \<Rightarrow> bool) \<Rightarrow> nat \<Rightarrow> outcome list \<Rightarrow> (document option \<times> nat) option" where
  "fetch_loop validator_func attempt_count [] = None"
| "fetch_loop validator_func attempt_count (out # rest) =
     (case fetch_attempt validator_func out of
        Retry \<Rightarrow> fetch_loop validator_func (Suc attempt_count) rest
      | Return r \<Rightarrow> Some (r, Suc attempt_count))"

definition fetch_until_success ::
  "network \<Rightarrow> string \<Rightarrow> (document \<Rightarrow> bool) \<Rightarrow> (document option \<times> nat) option" where
  "fetch_until_success net url validator_func =
     (let target_url = (if startswith url ''/'' then BASE_DOMAIN @ url else url)
      in fetch_loop validator_func 0 (net target_url))"

section \<open>The CDN link resolver\<close>

definition is_valid_mobdisc_page :: "document \<Rightarrow> bool" where
  "is_valid_mobdisc_page soup = (download_buttons soup \<noteq> [])"

text \<open>The \<open>for btn in buttons\<close> loop of \<open>scan_cdn_page_loop\<close>, lines 194-219.\<close>

fun scan_buttons :: "anchor list \<Rightarrow> string option" where
  "scan_buttons [] = None"
| "scan_buttons (btn # rest) =
     (case href btn of
        None \<Rightarrow> scan_buttons rest
      | Some h \<Rightarrow>
          if h = [] then scan_buttons rest
          else if contains ''t.me'' h then scan_buttons rest
          else if contains ''/fdl/'' h then Some (unwrap_google_url h)
          else if startswith h ''#/download/'' then Some (CDN_DOMAIN @ drop 1 h)
          else if contains ''http'' h \<and> contains ''mobdisc.com'' h then Some h
          else scan_buttons rest)"

definition scan_cdn_page_loop :: "network \<Rightarrow> string \<Rightarrow> string option option" where
  "scan_cdn_page_loop net dwn_url =
     (case fetch_until_success net dwn_url is_valid_mobdisc_page of
        None \<Rightarrow> None
      | Some (None, n) \<Rightarrow> Some None
      | Some (Some soup, n) \<Rightarrow> Some (scan_buttons (download_buttons soup)))"

section \<open>The item resolver\<close>

text \<open>
  An exception is a value. \<open>KeyError\<close> is what \<open>element['attr']\<close> raises when the
  attribute is missing; \<open>Unexpected\<close> stands for any other exception of class
  \<open>Exception\<close> that a statement may raise.
\<close>

datatype exn = KeyError | Unexpected

text \<open>The dictionary that \<open>process_item_fully\<close> returns, lines 314-320.\<close>

record item =
  name :: string
  link :: string
  image :: string
  download :: string
  size :: string

definition detail_page_valid :: "document \<Rightarrow> bool" where
  "detail_page_valid s = (version_buttons s \<noteq> [] \<or> accordion_items s > 0)"

text \<open>Lines 238-252: the buttons of the versions list, else the standalone buttons.\<close>

fun list_buttons :: "link_tag option list \<Rightarrow> link_tag list" where
  "list_buttons [] = []"
| "list_buttons (None # rest) = list_buttons rest"
| "list_buttons (Some btn # rest) = btn # list_buttons rest"

definition collect_link_tags :: "document \<Rightarrow> link_tag list" where
  "collect_link_tags app_soup =
     (if downloads_list app_soup \<noteq> [] then list_buttons (downloads_list app_soup)
      else version_buttons app_soup)"

text \<open>Python truth of a value that is \<open>None\<close> or a string.\<close>

definition truthy :: "string option \<Rightarrow> bool" where
  "truthy x = (case x of None \<Rightarrow> False | Some s \<Rightarrow> s \<noteq> [])"

definition is_external :: "string \<Rightarrow> bool" where
  "is_external raw_link =
     (contains ''http'' raw_link \<and> \<not> contains ''pdalife.com'' raw_link
      \<and> \<not> contains ''/dwn/'' raw_link)"

text \<open>
  The \<open>for index, link_tag in enumerate(link_tags)\<close> loop, lines 264-304, with
  \<open>final_data_list\<close> as the accumulator. \<open>None\<close>: a fetch inside does not return.
\<close>

fun process_links :: "network \<Rightarrow> link_tag list \<Rightarrow> string list \<Rightarrow> string list option" where
  "process_links net [] final_data_list = Some final_data_list"
| "process_links net (link_tag # rest) final_data_list =
     (case tag_href link_tag of
        None \<Rightarrow> process_links net rest final_data_list
      | Some raw_link \<Rightarrow>
          if raw_link = [] then process_links net rest final_data_list
          else if startswith raw_link ''magnet:''
          then process_links net rest (final_data_list @ [raw_link])
          else if is_external raw_link then
            (case scan_cdn_page_loop net raw_link of
               None \<Rightarrow> None
             | Some direct_link \<Rightarrow>
                 process_links net rest
                   (final_data_list @ [if truthy direct_link then the direct_link else raw_link]))
          else
            (case scan_cdn_page_loop net (unwrap_google_url raw_link) of
               None \<Rightarrow> None
             | Some direct_link \<Rightarrow>
                 if truthy direct_link
                 then process_links net rest (final_data_list @ [the direct_link])
                 else process_links net rest final_data_list))"

text \<open>\<open>main_size\<close> is set at index 0 of the loop, from the first link tag.\<close>

definition main_size_of :: "link_tag list \<Rightarrow> string" where
  "main_size_of link_tags =
     (case link_tags of
        [] \<Rightarrow> []
      | link_tag # rest \<Rightarrow> (case size_text link_tag of None \<Rightarrow> [] | Some t \<Rightarrow> t))"

text \<open>
  The body of the \<open>try\<close> block, lines 227-320. The source has no \<open>raise\<close> of its own
  there; \<open>fault = Some e\<close> says that a statement of the block raises \<open>e\<close>.
\<close>

definition process_item_body ::
  "network \<Rightarrow> exn option \<Rightarrow> string \<Rightarrow> string \<Rightarrow> string \<Rightarrow> (exn + item option) option" where
  "process_item_body net fault nm detail_url img =
     (case fault of
        Some e \<Rightarrow> Some (Inl e)
      | None \<Rightarrow>
         (case fetch_until_success net detail_url detail_page_valid of
            None \<Rightarrow> None
          | Some (None, n) \<Rightarrow> Some (Inr None)
          | Some (Some app_soup, n) \<Rightarrow>
              let link_tags = collect_link_tags app_soup
              in if link_tags = [] then Some (Inr None)
                 else
                   (case process_links net link_tags [] of
                      None \<Rightarrow> None
                    | Some final_data_list \<Rightarrow>
                        if final_data_list = [] then Some (Inr None)
                        else Some (Inr (Some
                          \<lparr>name = nm,
                           link = unwrap_google_url detail_url,
                           image = img,
                           download = join '', '' final_data_list,
                           size = main_size_of link_tags\<rparr>)))))"

text \<open>\<open>except Exception as e: ... return None\<close>, lines 322-324.\<close>

definition except_return_None :: "(exn + 'a option) option \<Rightarrow> (exn + 'a option) option" where
  "except_return_None body =
     (case body of
        None \<Rightarrow> None
      | Some (Inl e) \<Rightarrow> Some (Inr None)
      | Some (Inr r) \<Rightarrow> Some (Inr r))"

definition process_item_fully ::
  "network \<Rightarrow> exn option \<Rightarrow> string \<Rightarrow> string \<Rightarrow> string \<Rightarrow> (exn + item option) option" where
  "process_item_fully net fault nm detail_url img =
     except_return_None (process_item_body net fault nm detail_url img)"

section \<open>The search orchestrator\<close>

definition search_page_valid :: "document \<Rightarrow> bool" where
  "search_page_valid s =
     (catalog_items s \<noteq> [] \<or> contains ''Found 0 responses'' (page_text s))"

text \<open>\<open>str(n)\<close> for a non-negative integer.\<close>

function show_nat :: "nat \<Rightarrow> string" where
  "show_nat n =
     (if n < 10 then [char_of (48 + n)]
      else show_nat (n div 10) @ [char_of (48 + n mod 10)])"
  by pat_completeness auto
termination
  by (relation "measure (\<lambda>n. n)") auto

definition search_url :: "string \<Rightarrow> nat \<Rightarrow> string" where
  "search_url query current_page =
     (if current_page = 1 then BASE_DOMAIN @ ''/search/'' @ query
      else BASE_DOMAIN @ ''/search/'' @ query @ ''/page-'' @ show_nat current_page @ ''/'')"

text \<open>
  \<open>int(s)\<close> on a string: whitespace around the number is skipped, a sign may come
  first, then decimal digits, where single underscores may stand between digits. \<open>None\<close>
  is \<open>ValueError\<close>.
\<close>

text \<open>The characters of a string, as code points.\<close>

fun code_points :: "string \<Rightarrow> int list" where
  "code_points [] = []"
| "code_points (b # rest) =
     (let n = (of_char b :: int) in
      if n < 128 then n # code_points rest
      else if 194 \<le> n \<and> n \<le> 223 then
        (case rest of
           c # r1 \<Rightarrow> ((n - 192) * 64 + (of_char c - 128)) # code_points r1
         | _ \<Rightarrow> [65533])
      else if 224 \<le> n \<and> n \<le> 239 then
        (case rest of
           c # d # r2 \<Rightarrow>
             ((n - 224) * 4096 + (of_char c - 128) * 64 + (of_char d - 128)) # code_points r2
         | _ \<Rightarrow> [65533])
      else if 240 \<le> n \<and> n \<le> 244 then
        (case rest of
           c # d # e # r3 \<Rightarrow>
             ((n - 240) * 262144 + (of_char c - 128) * 4096 + (of_char d - 128) * 64
              + (of_char e - 128)) # code_points r3
         | _ \<Rightarrow> [65533])
      else 65533 # code_points rest)"

text \<open>
  The characters outside ASCII that \<open>int\<close> takes for a space, and the zero of every
  range of ten decimal digits (Unicode 14, as in Python 3.11). \<open>int\<close> first rewrites
  such a space to a blank, such a digit to its ASCII digit and any other character
  outside ASCII to \<open>?\<close>.
\<close>

definition unicode_spaces :: "int list" where
  "unicode_spaces =
     [133, 160, 5760, 8192, 8193, 8194, 8195, 8196, 8197, 8198, 8199, 8200, 8201, 8202,
      8232, 8233, 8239, 8287, 12288]"

definition digit_zeros :: "int list" where
  "digit_zeros =
     [48, 1632, 1776, 1984, 2406, 2534, 2662, 2790, 2918, 3046, 3174, 3302, 3430, 3558, 3664,
      3792, 3872, 4160, 4240, 6112, 6160, 6470, 6608, 6784, 6800, 6992, 7088, 7232, 7248, 42528,
      43216, 43264, 43472, 43504, 43600, 44016, 65296, 66720, 68912, 69734, 69872, 69942, 70096,
      70384, 70736, 70864, 71248, 71360, 71472, 71904, 72016, 72784, 73040, 73120, 92768, 92864,
      93008, 120782, 120792, 120802, 120812, 120822, 123200, 123632, 125264, 130032]"

definition ascii_of_point :: "int \<Rightarrow> char" where
  "ascii_of_point cp =
     (if cp < 127 then char_of cp
      else if cp \<in> set unicode_spaces then CHR '' ''
      else
        (case List.find (\<lambda>z. z \<le> cp \<and> cp < z + 10) digit_zeros of
           Some z \<Rightarrow> char_of (48 + (cp - z))
         | None \<Rightarrow> CHR ''?''))"

text \<open>The ASCII whitespace that \<open>int\<close> skips around the number.\<close>

definition is_space :: "char \<Rightarrow> bool" where
  "is_space c = (let n = (of_char c :: nat) in (9 \<le> n \<and> n \<le> 13) \<or> n = 32)"

definition strip :: "string \<Rightarrow> string" where
  "strip s = rev (dropWhile is_space (rev (dropWhile is_space s)))"

definition digit_val :: "char \<Rightarrow> nat option" where
  "digit_val c =
     (let n = (of_char c :: nat) in if 48 \<le> n \<and> n \<le> 57 then Some (n - 48) else None)"

fun parse_digits :: "nat \<Rightarrow> string \<Rightarrow> nat option" where
  "parse_digits acc [] = Some acc"
| "parse_digits acc [c] =
     (case digit_val c of None \<Rightarrow> None | Some v \<Rightarrow> Some (10 * acc + v))"
| "parse_digits acc (c # d # rest) =
     (if c = CHR ''_'' then
        (case digit_val d of None \<Rightarrow> None | Some v \<Rightarrow> parse_digits (10 * acc + v) rest)
      else
        (case digit_val c of None \<Rightarrow> None | Some v \<Rightarrow> parse_digits (10 * acc + v) (d # rest)))"

text \<open>More than 4300 digits are refused (the default limit of Python 3.11).\<close>

definition parse_unsigned :: "string \<Rightarrow> nat option" where
  "parse_unsigned s =
     (if 4300 < int (length (filter (\<lambda>c. digit_val c \<noteq> None) s)) then None
      else
        (case s of
           [] \<Rightarrow> None
         | c # rest \<Rightarrow> (case digit_val c of None \<Rightarrow> None | Some v \<Rightarrow> parse_digits v rest)))"

definition py_int :: "string \<Rightarrow> int option" where
  "py_int s =
     (case strip (map ascii_of_point (code_points s)) of
        [] \<Rightarrow> None
      | c # rest \<Rightarrow>
          if c = CHR ''-'' then map_option (\<lambda>n. - int n) (parse_unsigned rest)
          else if c = CHR ''+'' then map_option int (parse_unsigned rest)
          else map_option int (parse_unsigned (c # rest)))"

text \<open>
  Lines 387-393: the new value of \<open>max_page\<close> after a page. A missing button, a missing
  attribute and a value that \<open>int\<close> rejects all leave it as it was.
\<close>

definition update_max_page :: "document \<Rightarrow> int \<Rightarrow> int" where
  "update_max_page soup max_page =
     (case load_more soup of
        None \<Rightarrow> max_page
      | Some None \<Rightarrow> max_page
      | Some (Some v) \<Rightarrow> (case py_int v of None \<Rightarrow> max_page | Some k \<Rightarrow> k))"

text \<open>
  The pagination loop, lines 357-400. \<open>fetched\<close> is a log that the source does not keep:
  for every page requested, the page number and the number of entries collected before
  the request. \<open>None\<close>: the fetch of a page does not return.
\<close>

function paginate ::
  "network \<Rightarrow> string \<Rightarrow> int \<Rightarrow> catalog_item list \<Rightarrow> nat \<Rightarrow> int \<Rightarrow> (nat \<times> nat) list
   \<Rightarrow> (catalog_item list \<times> (nat \<times> nat) list) option" where
  "paginate net query limit collected current_page max_page fetched =
     (if int (length collected) < limit then
        (case fetch_until_success net (search_url query current_page) search_page_valid of
           None \<Rightarrow> None
         | Some (None, n) \<Rightarrow> Some (collected, fetched @ [(current_page, length collected)])
         | Some (Some soup, n) \<Rightarrow>
             if contains ''Found 0 responses'' (page_text soup)
             then Some (collected, fetched @ [(current_page, length collected)])
             else if catalog_items soup = []
             then Some (collected, fetched @ [(current_page, length collected)])
             else if int current_page \<ge> update_max_page soup max_page
             then Some (collected @ catalog_items soup,
                        fetched @ [(current_page, length collected)])
             else paginate net query limit (collected @ catalog_items soup)
                    (Suc current_page) (update_max_page soup max_page)
                    (fetched @ [(current_page, length collected)]))
      else Some (collected, fetched))"
  by pat_completeness auto
termination
  by (relation "measure (\<lambda>(net, query, limit, collected, current_page, max_page, fetched).
        nat (limit - int (length collected)))") auto

text \<open>\<open>xs[:n]\<close> for a Python integer \<open>n\<close>.\<close>

definition slice_to :: "'a list \<Rightarrow> int \<Rightarrow> 'a list" where
  "slice_to xs n = (if n \<ge> 0 then take (nat n) xs else take (nat (int (length xs) + n)) xs)"

text \<open>
  The \<open>for item in items_to_process\<close> loop, lines 415-428: the arguments of one
  \<open>process_item_fully\<close> task per item that has a title link. \<open>title_el['href']\<close> and
  \<open>img_el['src']\<close> raise \<open>KeyError\<close> on a missing attribute.
\<close>

fun build_tasks :: "catalog_item list \<Rightarrow> exn + (string \<times> string \<times> string) list" where
  "build_tasks [] = Inr []"
| "build_tasks (it # rest) =
     (case title it of
        None \<Rightarrow> build_tasks rest
      | Some (nm, None) \<Rightarrow> Inl KeyError
      | Some (nm, Some detail_href) \<Rightarrow>
          (case poster it of
             Some None \<Rightarrow> Inl KeyError
           | img_el \<Rightarrow>
               (case build_tasks rest of
                  Inl e \<Rightarrow> Inl e
                | Inr tasks \<Rightarrow>
                    Inr ((nm, unwrap_google_url detail_href,
                          (case img_el of Some (Some src) \<Rightarrow> unwrap_google_url src | _ \<Rightarrow> []))
                         # tasks))))"

text \<open>
  \<open>asyncio.gather(*tasks)\<close>: the results of all tasks, in the order of the tasks. An
  exception that leaves a task leaves \<open>gather\<close>; a task that does not return keeps
  \<open>gather\<close> from returning.
\<close>

fun gather :: "(exn + 'a) option list \<Rightarrow> (exn + 'a list) option" where
  "gather [] = Some (Inr [])"
| "gather (t # ts) =
     (case t of
        Some (Inl e) \<Rightarrow> Some (Inl e)
      | _ \<Rightarrow>
         (case gather ts of
            Some (Inl e) \<Rightarrow> Some (Inl e)
          | None \<Rightarrow> None
          | Some (Inr rs) \<Rightarrow> (case t of Some (Inr r) \<Rightarrow> Some (Inr (r # rs)) | _ \<Rightarrow> None)))"

text \<open>\<open>[r for r in results if r is not None]\<close>.\<close>

fun drop_none :: "'a option list \<Rightarrow> 'a list" where
  "drop_none [] = []"
| "drop_none (None # rs) = drop_none rs"
| "drop_none (Some r # rs) = r # drop_none rs"

text \<open>The response dictionary: keys and values in the order of the dict literal.\<close>

datatype json = JBool bool | JInt int | JStr string | JItems "item list"

type_synonym payload = "(string \<times> json) list"

text \<open>
  The tasks of one request, in order; \<open>faults k\<close> is the exception, if any, that strikes
  inside the \<open>k\<close>-th task.
\<close>

fun run_tasks ::
  "network \<Rightarrow> (nat \<Rightarrow> exn option) \<Rightarrow> nat \<Rightarrow> (string \<times> string \<times> string) list
   \<Rightarrow> (exn + item option) option list" where
  "run_tasks net faults k [] = []"
| "run_tasks net faults k ((nm, detail_link, img) # rest) =
     process_item_fully net (faults k) nm detail_link img # run_tasks net faults (Suc k) rest"

text \<open>
  \<open>search_apps\<close>, lines 339-444. \<open>None\<close>: the request does not return; \<open>Inl e\<close>: the
  exception \<open>e\<close> leaves the handler.
\<close>

definition search_apps ::
  "network \<Rightarrow> (nat \<Rightarrow> exn option) \<Rightarrow> string \<Rightarrow> int \<Rightarrow> (exn + payload) option" where
  "search_apps net faults query limit =
     (case paginate net query limit [] 1 1 [] of
        None \<Rightarrow> None
      | Some (collected_item_elements, fetched) \<Rightarrow>
          if collected_item_elements = []
          then Some (Inr [(''success'', JBool True), (''count'', JInt 0), (''results'', JItems [])])
          else
            let items_to_process = slice_to collected_item_elements limit
            in (case build_tasks items_to_process of
                  Inl e \<Rightarrow> Some (Inl e)
                | Inr tasks \<Rightarrow>
                   (case gather (run_tasks net faults 0 tasks) of
                      None \<Rightarrow> None
                    | Some (Inl e) \<Rightarrow> Some (Inl e)
                    | Some (Inr results) \<Rightarrow>
                        let valid_results = drop_none results
                        in Some (Inr
                             [(''success'', JBool True),
                              (''query'', JStr query),
                              (''limit'', JInt limit),
                              (''count'', JInt (int (length valid_results))),
                              (''results'', JItems valid_results)]))))"

declare paginate.simps [simp del]

declare show_nat.simps [simp del]

section \<open>Example pages and networks\<close>

definition empty_doc :: document where
  "empty_doc =
     \<lparr>download_buttons = [], version_buttons = [], accordion_items = 0, downloads_list = [],
      catalog_items = [], page_text = [], load_more = None\<rparr>"

definition plain_response :: "int \<Rightarrow> response" where
  "plain_response code =
     \<lparr>status_code = code, final_url = ''https://pdalife.com/game/xyz'', content = empty_doc\<rparr>"



text \<open>
  The CDN-mirror marker in the words of the specification: the host component of the
  response's final URL contains the CDN domain, or a download button is selected.
\<close>

fun after_scheme :: "string \<Rightarrow> string" where
  "after_scheme [] = []"
| "after_scheme (c # cs) =
     (if startswith (c # cs) ''://'' then drop 3 (c # cs) else after_scheme cs)"

definition url_host :: "string \<Rightarrow> string" where
  "url_host u =
     takeWhile (\<lambda>c. c \<noteq> CHR ''/'' \<and> c \<noteq> CHR ''?'' \<and> c \<noteq> CHR ''#'') (after_scheme u)"

definition spec_cdn_marker :: "response \<Rightarrow> bool" where
  "spec_cdn_marker res =
     (contains ''mobdisc.com'' (url_host (final_url res))
      \<or> download_buttons (content res) \<noteq> [])"

text \<open>The answer to a search for the word \<open>mobdisc\<close>: a page without entries.\<close>

definition search_mobdisc_response :: response where
  "search_mobdisc_response =
     \<lparr>status_code = 200, final_url = ''https://pdalife.com/search/mobdisc'',
      content = empty_doc\<rparr>"

text \<open>
  A small catalog: the detail page of one item, with a magnet link and an internal
  redirect in its versions list, the CDN page behind the redirect, an external host that
  answers 404, an external host whose page has a hash-route button, a redirect that is
  gone, and the detail page of an item whose only variant is that redirect.
\<close>

definition cdn_page :: document where
  "cdn_page =
     empty_doc\<lparr>download_buttons :=
       [\<lparr>href = Some ''t.me/x''\<rparr>, \<lparr>href = Some ''/fdl/final''\<rparr>, \<lparr>href = Some ''#/download/z''\<rparr>]\<rparr>"

definition hash_page :: document where
  "hash_page = empty_doc\<lparr>download_buttons := [\<lparr>href = Some ''#/download/app''\<rparr>]\<rparr>"

definition magnet_tag :: link_tag where
  "magnet_tag = \<lparr>tag_href = Some ''magnet:?xt=1'', size_text = Some ''1.2 Gb''\<rparr>"

definition redirect_tag :: link_tag where
  "redirect_tag = \<lparr>tag_href = Some ''/dwn/redirect'', size_text = None\<rparr>"

definition item_page :: document where
  "item_page =
     empty_doc\<lparr>version_buttons := [magnet_tag, redirect_tag], accordion_items := 1,
               downloads_list := [Some magnet_tag, None, Some redirect_tag]\<rparr>"

definition gone_tag :: link_tag where
  "gone_tag = \<lparr>tag_href = Some ''/dwn/gone'', size_text = None\<rparr>"

definition dead_page :: document where
  "dead_page = empty_doc\<lparr>version_buttons := [gone_tag], downloads_list := [Some gone_tag]\<rparr>"

definition shop_net :: network where
  "shop_net u =
     (if u = ''https://pdalife.com/game/xyz'' then
        [Raises, Resp (plain_response 503),
         Resp \<lparr>status_code = 200, final_url = u, content = item_page\<rparr>]
      else if u = ''https://pdalife.com/dwn/redirect'' then
        [Resp \<lparr>status_code = 200, final_url = ''https://mobdisc.com/dw/1'', content = cdn_page\<rparr>]
      else if u = ''https://onlinerp.me/get'' then [Resp (plain_response 404)]
      else if u = ''https://files.example.org/app'' then
        [Resp \<lparr>status_code = 200, final_url = u, content = hash_page\<rparr>]
      else if u = ''https://pdalife.com/dwn/gone'' then [Resp (plain_response 404)]
      else if u = ''https://pdalife.com/game/dead'' then
        [Resp \<lparr>status_code = 200, final_url = u, content = dead_page\<rparr>]
      else [])"

definition app_tag :: link_tag where
  "app_tag = \<lparr>tag_href = Some ''https://files.example.org/app'', size_text = None\<rparr>"

definition onlinerp_tag :: link_tag where
  "onlinerp_tag = \<lparr>tag_href = Some ''https://onlinerp.me/get'', size_text = None\<rparr>"

text \<open>
  Search pages of the same catalog: three pages of two entries each for the query
  \<open>game\<close>, announcing four pages; one page without a load-more button for the query
  \<open>solo\<close>; the page that reports no result for the query \<open>zzz\<close>; and, for the query
  \<open>bad\<close>, a page whose only entry has a title link without \<open>href\<close>.
\<close>

definition stub :: "string \<Rightarrow> string \<Rightarrow> catalog_item" where
  "stub nm h = \<lparr>title = Some (nm, Some h), poster = Some (Some ''/img/a.png'')\<rparr>"

definition search_page1 :: document where
  "search_page1 =
     empty_doc\<lparr>catalog_items := [stub ''Game'' ''/game/xyz'', stub ''Dead'' ''/game/dead''],
               load_more := Some (Some ''4'')\<rparr>"

definition search_page2 :: document where
  "search_page2 =
     empty_doc\<lparr>catalog_items := [stub ''Game 2'' ''/game/xyz'', \<lparr>title = None, poster = None\<rparr>],
               load_more := Some (Some ''4'')\<rparr>"

definition search_page3 :: document where
  "search_page3 =
     empty_doc\<lparr>catalog_items := [stub ''Game 3'' ''/game/xyz'', stub ''Game 4'' ''/game/xyz''],
               load_more := Some (Some ''4'')\<rparr>"

definition solo_page :: document where
  "solo_page = empty_doc\<lparr>catalog_items := [stub ''Solo'' ''/game/xyz'']\<rparr>"

definition zero_page :: document where
  "zero_page = empty_doc\<lparr>page_text := ''Found 0 responses''\<rparr>"

definition bad_page :: document where
  "bad_page = empty_doc\<lparr>catalog_items := [\<lparr>title = Some (''Bad'', None), poster = None\<rparr>]\<rparr>"

definition site_net :: network where
  "site_net u =
     (if u = ''https://pdalife.com/search/game'' then
        [Resp \<lparr>status_code = 200, final_url = u, content = search_page1\<rparr>]
      else if u = ''https://pdalife.com/search/game/page-2/'' then
        [Resp \<lparr>status_code = 200, final_url = u, content = search_page2\<rparr>]
      else if u = ''https://pdalife.com/search/game/page-3/'' then
        [Resp \<lparr>status_code = 200, final_url = u, content = search_page3\<rparr>]
      else if u = ''https://pdalife.com/search/solo'' then
        [Resp \<lparr>status_code = 200, final_url = u, content = solo_page\<rparr>]
      else if u = ''https://pdalife.com/search/zzz'' then
        [Resp \<lparr>status_code = 200, final_url = u, content = zero_page\<rparr>]
      else if u = ''https://pdalife.com/search/bad'' then
        [Resp \<lparr>status_code = 200, final_url = u, content = bad_page\<rparr>]
      else shop_net u)"

definition game_item :: "string \<Rightarrow> item" where
  "game_item nm =
     \<lparr>name = nm, link = ''https://pdalife.com/game/xyz'',
      image = ''https://pdalife.com/img/a.png'',
      download = ''magnet:?xt=1, https://mobdisc.com/fdl/final'', size = ''1.2 Gb''\<rparr>"

definition no_faults :: "nat \<Rightarrow> exn option" where
  "no_faults k = None"


definition game_collected :: "catalog_item list" where
  "game_collected =
     catalog_items search_page1 @ catalog_items search_page2 @ catalog_items search_page3"

definition game_payload :: payload where
  "game_payload =
     [(''success'', JBool True), (''query'', JStr ''game''), (''limit'', JInt 5),
      (''count'', JInt 3),
      (''results'', JItems [game_item ''Game'', game_item ''Game 2'', game_item ''Game 3''])]"

text \<open>
  The URL that the fetcher requests, lines 111-113, and the outcomes after which the
  fetcher is said to try again: an exception, or a response with status 429 or at
  least 500.
\<close>

definition target_url :: "string \<Rightarrow> string" where
  "target_url url = (if startswith url ''/'' then BASE_DOMAIN @ url else url)"



text \<open>
  The second kind of link in the words of the claim: an absolute link whose host is
  outside the catalog's domain and whose path is not a \<open>/dwn/\<close> redirect.
\<close>

definition url_path :: "string \<Rightarrow> string" where
  "url_path u = dropWhile (\<lambda>c. c \<noteq> CHR ''/'') (after_scheme u)"

definition claim_external :: "string \<Rightarrow> bool" where
  "claim_external raw =
     ((startswith raw ''http://'' \<or> startswith raw ''https://'')
      \<and> \<not> contains ''pdalife.com'' (url_host raw)
      \<and> \<not> startswith (url_path raw) ''/dwn/'')"

text \<open>
  An item whose only variant is a relative link with \<open>http\<close> in a file name, and whose
  file is not there.
\<close>

definition canary_tag :: link_tag where
  "canary_tag = \<lparr>tag_href = Some ''/files/httpcanary.apk'', size_text = None\<rparr>"

definition canary_page :: document where
  "canary_page = empty_doc\<lparr>version_buttons := [canary_tag], downloads_list := [Some canary_tag]\<rparr>"

definition canary_net :: network where
  "canary_net u =
     (if u = ''https://pdalife.com/game/canary'' then
        [Resp \<lparr>status_code = 200, final_url = u, content = canary_page\<rparr>]
      else if u = ''https://pdalife.com/files/httpcanary.apk'' then [Resp (plain_response 404)]
      else [])"



text \<open>
  The two halves of \<open>unwrap_google_url\<close>, named for the proofs: the cleaning of lines
  76-85 and the completion of lines 88-103.
\<close>

definition cleaned :: "string \<Rightarrow> string" where
  "cleaned url =
     split_first ''&_x_tr_''
       (split_first ''?_x_tr_''
          (replace_all ''.translate.goog'' []
             (replace_all ''-com.translate.goog'' ''.com'' (unquote url))))"

definition finish_url :: "string \<Rightarrow> string" where
  "finish_url clean =
     (if startswith clean ''/'' then
        (if startswith clean ''/fdl/'' then CDN_DOMAIN @ clean else BASE_DOMAIN @ clean)
      else if contains ''https://'' clean \<and> contains ''http'' (drop_chars 8 clean) then
        (case re_search_url clean of Some m \<Rightarrow> m | None \<Rightarrow> clean)
      else clean)"



section \<open>The library functions on examples\<close>

text \<open>
  Values of \<open>urllib.parse.unquote\<close> and \<open>int\<close> in Python 3.11, computed by the model: an
  escaped byte that is no UTF-8 gives U+FFFD, an escaped two-byte sequence gives its
  character, a no-break space is skipped by \<open>int\<close> and the control character 1C is not,
  and an Arabic-Indic digit is a digit.
\<close>

lemma unquote_examples:
  "unquote ''%E9'' = [CHR 0xEF, CHR 0xBF, CHR 0xBD]
   \<and> unquote ''%C3%A9'' = [CHR 0xC3, CHR 0xA9]
   \<and> unquote ''%E2%82x'' = [CHR 0xEF, CHR 0xBF, CHR 0xBD, CHR ''x'']
   \<and> unquote ''a%2Fb%zz%4'' = ''a/b%zz%4''
   \<and> unquote ''%2541'' = ''%41''"
  by code_simp

lemma py_int_examples:
  "py_int [CHR 0xC2, CHR 0xA0, CHR ''2''] = Some 2
   \<and> py_int [CHR 0x1C, CHR ''2''] = None
   \<and> py_int [CHR 0xD9, CHR 0xA3] = Some 3
   \<and> py_int '' 1_000 '' = Some 1000
   \<and> py_int ''-7'' = Some (- 7)
   \<and> py_int [CHR 0xF0, CHR 0x9F, CHR 0xAF, CHR 0xB9] = Some 9
   \<and> py_int ''1__0'' = None
   \<and> py_int ''4.0'' = None"
  by code_simp

lemma drop_chars_examples:
  "drop_chars 8 ''https://pdalife.com'' = ''pdalife.com''
   \<and> drop_chars 2 [CHR 0xC3, CHR 0xA9, CHR ''a'', CHR ''b''] = ''b''"
  by code_simp

section \<open>The fetcher's treatment of status codes\<close>






section \<open>Documents that the validator rejects\<close>

lemma fetch_loop_counts: "fetch_loop v n xs = Some (r, m) \<Longrightarrow> n < m"
proof (induction xs arbitrary: n)
  case Nil
  then show ?case by simp
next
  case (Cons out xs)
  show ?case
  proof (cases "fetch_attempt v out")
    case Retry
    with Cons.prems have "fetch_loop v (Suc n) xs = Some (r, m)" by simp
    from Cons.IH [OF this] show ?thesis by simp
  next
    case (Return x)
    with Cons.prems show ?thesis by simp
  qed
qed

text \<open>
  Claim C8, as stated, fails. The source tests \<open>"mobdisc" in str(res.url)\<close>: the word
  anywhere in the final URL, not the CDN domain in its host. The page that answers a
  search for \<open>mobdisc\<close> has the host \<open>pdalife.com\<close>, no download button and no entry,
  and the fetcher returns it although the validator rejects it.
\<close>

theorem mirror_marker_counterexample:
  "\<not> search_page_valid (content search_mobdisc_response)
   \<and> fetch_loop search_page_valid 0 [Resp search_mobdisc_response]
       = Some (Some (content search_mobdisc_response), 1)
   \<and> \<not> spec_cdn_marker search_mobdisc_response"
  by code_simp

text \<open>
  Claim C8, amended. When the validator rejects a fetched document (a response whose
  status is none of 429, 403, 451, 404 and is below 500), the attempt returns the document
  exactly when the final URL, as a string, contains \<open>mobdisc\<close> anywhere, or a download
  button is selected in the document.
\<close>

theorem mirror_marker_rule:
  assumes "\<not> v (content res)"
    and "status_code res \<noteq> 429" and "status_code res < 500"
    and "status_code res \<noteq> 403" and "status_code res \<noteq> 451" and "status_code res \<noteq> 404"
  shows "(fetch_loop v n (Resp res # rest) = Some (Some (content res), Suc n))
         = (contains ''mobdisc'' (final_url res) \<or> download_buttons (content res) \<noteq> [])"
proof (cases "contains ''mobdisc'' (final_url res) \<or> download_buttons (content res) \<noteq> []")
  case True
  with assms show ?thesis by (auto simp: fetch_attempt_def Let_def)
next
  case False
  show ?thesis
  proof (cases "status_code res = 200")
    case True
    with False assms show ?thesis by (auto simp: fetch_attempt_def Let_def)
  next
    case ne: False
    have "fetch_loop v n (Resp res # rest) = fetch_loop v (Suc n) rest"
      using False assms ne by (auto simp: fetch_attempt_def Let_def)
    moreover have "fetch_loop v (Suc n) rest \<noteq> Some (Some (content res), Suc n)"
      using fetch_loop_counts [of v "Suc n" rest "Some (content res)" "Suc n"] by auto
    ultimately show ?thesis using False by simp
  qed
qed

theorem mirror_marker_rule_witness:
  "\<not> search_page_valid (content search_mobdisc_response)
   \<and> status_code search_mobdisc_response \<noteq> 429 \<and> status_code search_mobdisc_response < 500
   \<and> status_code search_mobdisc_response \<noteq> 403 \<and> status_code search_mobdisc_response \<noteq> 451
   \<and> status_code search_mobdisc_response \<noteq> 404
   \<and> ((fetch_loop search_page_valid 0 [Resp search_mobdisc_response]
         = Some (Some (content search_mobdisc_response), 1))
        = (contains ''mobdisc'' (final_url search_mobdisc_response)
           \<or> download_buttons (content search_mobdisc_response) \<noteq> []))"
proof -
  have h1: "\<not> search_page_valid (content search_mobdisc_response)"
    by code_simp
  have h2: "status_code search_mobdisc_response \<noteq> 429"
    "status_code search_mobdisc_response < 500"
    "status_code search_mobdisc_response \<noteq> 403"
    "status_code search_mobdisc_response \<noteq> 451"
    "status_code search_mobdisc_response \<noteq> 404"
    by (simp_all add: search_mobdisc_response_def)
  show ?thesis
    using mirror_marker_rule [of search_page_valid search_mobdisc_response 0 "[]"] h1 h2
    by simp
qed

section \<open>The order of the buttons on a CDN page\<close>

text \<open>
  Claim C2 gives a link with the \<open>/fdl/\<close> segment priority over a hash-route button that
  stands before it. The loop returns at the first button that matches any of its rules:
  on the list of a \<open>#/download/z\<close> button followed by a \<open>/fdl/y\<close> button it returns the
  hash-route link, not the normalized \<open>/fdl/y\<close> link. On the list of the claim, where the
  \<open>/fdl/y\<close> button stands before the hash-route button, it returns the normalized
  \<open>/fdl/y\<close> link.
\<close>

theorem hash_route_before_fdl:
  "scan_buttons [\<lparr>href = Some ''#/download/z''\<rparr>, \<lparr>href = Some ''/fdl/y''\<rparr>]
     = Some ''https://mobdisc.com/download/z''
   \<and> unwrap_google_url ''/fdl/y'' = ''https://mobdisc.com/fdl/y''
   \<and> scan_buttons [\<lparr>href = Some ''t.me/x''\<rparr>, \<lparr>href = Some ''/fdl/y''\<rparr>,
                    \<lparr>href = Some ''#/download/z''\<rparr>]
       = Some ''https://mobdisc.com/fdl/y''"
  by code_simp

section \<open>Resolution of the download variants of one item\<close>

lemma process_links_acc:
  "process_links net ts acc = map_option ((@) acc) (process_links net ts [])"
proof (induction ts arbitrary: acc)
  case Nil
  show ?case by simp
next
  case (Cons t ts)
  have step: "\<And>x. process_links net ts (acc @ x) = map_option ((@) acc) (process_links net ts x)"
  proof -
    fix x
    have "process_links net ts (acc @ x) = map_option ((@) (acc @ x)) (process_links net ts [])"
      by (rule Cons.IH)
    moreover have "process_links net ts x = map_option ((@) x) (process_links net ts [])"
      by (rule Cons.IH)
    ultimately show "process_links net ts (acc @ x) = map_option ((@) acc) (process_links net ts x)"
      by (cases "process_links net ts []") simp_all
  qed
  show ?case
    using step [of "[]"] step
    by (simp split: option.splits)
qed

lemma process_links_append:
  "process_links net (ts1 @ ts2) acc =
     (case process_links net ts1 acc of None \<Rightarrow> None | Some acc' \<Rightarrow> process_links net ts2 acc')"
  by (induction ts1 arbitrary: acc) (simp_all split: option.splits)

lemma process_links_split:
  assumes "process_links net (ts1 @ ts2) [] = Some out"
  shows "\<exists>o1 o2. process_links net ts1 [] = Some o1 \<and> process_links net ts2 [] = Some o2
           \<and> out = o1 @ o2"
proof -
  from assms obtain o1 where o1: "process_links net ts1 [] = Some o1"
    and rest: "process_links net ts2 o1 = Some out"
    by (auto simp: process_links_append split: option.splits)
  from rest obtain o2 where "process_links net ts2 [] = Some o2" and "out = o1 @ o2"
    using process_links_acc [of net ts2 o1] by auto
  with o1 show ?thesis by blast
qed

lemma magnet_nonempty: "startswith raw ''magnet:'' \<Longrightarrow> raw \<noteq> []"
  by (auto simp: startswith_def)

lemma external_nonempty: "is_external raw \<Longrightarrow> raw \<noteq> []"
  by (auto simp: is_external_def)

text \<open>
  Claim C3, as stated, fails. The claim keeps the raw link for a link that is absolute,
  external to the catalog's domain and not a \<open>/dwn/\<close> redirect, and has every other link
  normalized and dropped when the CDN resolver fails. Line 285 tests substrings of the
  raw link instead: \<open>http\<close> in it, \<open>pdalife.com\<close> not in it, \<open>/dwn/\<close> not in it. The
  relative link \<open>/files/httpcanary.apk\<close> is not absolute, yet it passes the test: when
  the CDN resolver fails on it, the raw link is kept and the item is returned with it,
  where the claim has the link dropped and the item absent.
\<close>

theorem variant_kind_counterexample:
  "\<not> claim_external ''/files/httpcanary.apk''
   \<and> scan_cdn_page_loop canary_net (unwrap_google_url ''/files/httpcanary.apk'') = Some None
   \<and> process_links canary_net [canary_tag] [] = Some [''/files/httpcanary.apk'']
   \<and> process_item_fully canary_net None ''Canary'' ''/game/canary'' []
       = Some (Inr (Some \<lparr>name = ''Canary'', link = ''https://pdalife.com/game/canary'',
                            image = [], download = ''/files/httpcanary.apk'', size = []\<rparr>))"
  by code_simp

text \<open>
  Claim C3, amended. In the loop over the variants of one item: a link that starts with
  \<open>magnet:\<close> is appended as it is, whatever the network is, so without a fetch and without
  normalization; a link that contains \<open>http\<close>, does not contain \<open>pdalife.com\<close> and does
  not contain \<open>/dwn/\<close>, each as a substring anywhere in the raw link, is given as it is to
  the CDN resolver, whose link is appended when it has one and the raw link when it has
  none; any other link is normalized and given to the CDN resolver, whose link is appended
  when it has one, and nothing is appended when it has none; the output for a list of
  variants is the output of its front part followed by the output of its back part, so
  links stand in the order of their variants; the variants \<open>magnet:?xt=1\<close> and
  \<open>/dwn/redirect\<close>, with the redirect resolving to a link, give exactly the magnet link
  followed by that link; and when the loop over the variants of the detail page ends with
  a non-empty list, the item resolver returns the record whose \<open>download\<close> field is that
  list joined with comma and blank.
\<close>

theorem variant_resolution:
  "(tag_href ta = Some ma \<and> startswith ma ''magnet:'' \<longrightarrow>
      process_links net (ta # ts) acc = process_links net ts (acc @ [ma]))
   \<and> (tag_href tb = Some rb \<and> \<not> startswith rb ''magnet:'' \<and> is_external rb
        \<and> scan_cdn_page_loop net rb = Some (Some db) \<and> db \<noteq> [] \<longrightarrow>
      process_links net (tb # ts) acc = process_links net ts (acc @ [db]))
   \<and> (tag_href tc = Some rc \<and> \<not> startswith rc ''magnet:'' \<and> is_external rc
        \<and> (scan_cdn_page_loop net rc = Some None \<or> scan_cdn_page_loop net rc = Some (Some [])) \<longrightarrow>
      process_links net (tc # ts) acc = process_links net ts (acc @ [rc]))
   \<and> (tag_href td = Some rd \<and> rd \<noteq> [] \<and> \<not> startswith rd ''magnet:'' \<and> \<not> is_external rd
        \<and> scan_cdn_page_loop net (unwrap_google_url rd) = Some (Some dd) \<and> dd \<noteq> [] \<longrightarrow>
      process_links net (td # ts) acc = process_links net ts (acc @ [dd]))
   \<and> (tag_href te = Some re \<and> \<not> startswith re ''magnet:'' \<and> \<not> is_external re
        \<and> (scan_cdn_page_loop net (unwrap_google_url re) = Some None
            \<or> scan_cdn_page_loop net (unwrap_google_url re) = Some (Some [])) \<longrightarrow>
      process_links net (te # ts) acc = process_links net ts acc)
   \<and> (process_links net (ts1 @ ts2) [] = Some out \<longrightarrow>
      (\<exists>o1 o2. process_links net ts1 [] = Some o1 \<and> process_links net ts2 [] = Some o2
         \<and> out = o1 @ o2))
   \<and> (scan_cdn_page_loop net (unwrap_google_url ''/dwn/redirect'') = Some (Some final)
        \<and> final \<noteq> [] \<longrightarrow>
      process_links net
        [\<lparr>tag_href = Some ''magnet:?xt=1'', size_text = s1\<rparr>,
         \<lparr>tag_href = Some ''/dwn/redirect'', size_text = s2\<rparr>] []
        = Some [''magnet:?xt=1'', final])
   \<and> (fetch_until_success net detail_url detail_page_valid = Some (Some soup, n)
        \<and> process_links net (collect_link_tags soup) [] = Some links \<and> links \<noteq> [] \<longrightarrow>
      process_item_fully net None nm detail_url img
        = Some (Inr (Some
            \<lparr>name = nm, link = unwrap_google_url detail_url, image = img,
             download = join '', '' links, size = main_size_of (collect_link_tags soup)\<rparr>)))"
proof (intro conjI impI)
  assume "tag_href ta = Some ma \<and> startswith ma ''magnet:''"
  then show "process_links net (ta # ts) acc = process_links net ts (acc @ [ma])"
    using magnet_nonempty [of ma] by simp
next
  assume "tag_href tb = Some rb \<and> \<not> startswith rb ''magnet:'' \<and> is_external rb
        \<and> scan_cdn_page_loop net rb = Some (Some db) \<and> db \<noteq> []"
  then show "process_links net (tb # ts) acc = process_links net ts (acc @ [db])"
    using external_nonempty [of rb] by (simp add: truthy_def)
next
  assume "tag_href tc = Some rc \<and> \<not> startswith rc ''magnet:'' \<and> is_external rc
        \<and> (scan_cdn_page_loop net rc = Some None \<or> scan_cdn_page_loop net rc = Some (Some []))"
  then show "process_links net (tc # ts) acc = process_links net ts (acc @ [rc])"
    using external_nonempty [of rc] by (auto simp: truthy_def)
next
  assume "tag_href td = Some rd \<and> rd \<noteq> [] \<and> \<not> startswith rd ''magnet:'' \<and> \<not> is_external rd
        \<and> scan_cdn_page_loop net (unwrap_google_url rd) = Some (Some dd) \<and> dd \<noteq> []"
  then show "process_links net (td # ts) acc = process_links net ts (acc @ [dd])"
    by (simp add: truthy_def)
next
  assume "tag_href te = Some re \<and> \<not> startswith re ''magnet:'' \<and> \<not> is_external re
        \<and> (scan_cdn_page_loop net (unwrap_google_url re) = Some None
            \<or> scan_cdn_page_loop net (unwrap_google_url re) = Some (Some []))"
  then show "process_links net (te # ts) acc = process_links net ts acc"
    by (auto simp: truthy_def)
next
  assume "process_links net (ts1 @ ts2) [] = Some out"
  then show "\<exists>o1 o2. process_links net ts1 [] = Some o1 \<and> process_links net ts2 [] = Some o2
         \<and> out = o1 @ o2"
    by (rule process_links_split)
next
  assume a: "scan_cdn_page_loop net (unwrap_google_url ''/dwn/redirect'') = Some (Some final)
        \<and> final \<noteq> []"
  have m: "startswith ''magnet:?xt=1'' ''magnet:''" by (simp add: startswith_def)
  have r: "\<not> startswith ''/dwn/redirect'' ''magnet:''" by (simp add: startswith_def)
  have e: "\<not> is_external ''/dwn/redirect''" by code_simp
  show "process_links net
        [\<lparr>tag_href = Some ''magnet:?xt=1'', size_text = s1\<rparr>,
         \<lparr>tag_href = Some ''/dwn/redirect'', size_text = s2\<rparr>] []
        = Some [''magnet:?xt=1'', final]"
    using a m r e by (simp add: truthy_def)
next
  assume "fetch_until_success net detail_url detail_page_valid = Some (Some soup, n)
        \<and> process_links net (collect_link_tags soup) [] = Some links \<and> links \<noteq> []"
  then show "process_item_fully net None nm detail_url img
        = Some (Inr (Some
            \<lparr>name = nm, link = unwrap_google_url detail_url, image = img,
             download = join '', '' links, size = main_size_of (collect_link_tags soup)\<rparr>))"
    by (auto simp: process_item_fully_def process_item_body_def except_return_None_def Let_def)
qed

theorem variant_resolution_witness:
  "(tag_href magnet_tag = Some ''magnet:?xt=1'' \<and> startswith ''magnet:?xt=1'' ''magnet:'')
   \<and> (tag_href app_tag = Some ''https://files.example.org/app''
        \<and> \<not> startswith ''https://files.example.org/app'' ''magnet:''
        \<and> is_external ''https://files.example.org/app''
        \<and> scan_cdn_page_loop shop_net ''https://files.example.org/app''
            = Some (Some ''https://mobdisc.com/download/app'')
        \<and> ''https://mobdisc.com/download/app'' \<noteq> [])
   \<and> (tag_href onlinerp_tag = Some ''https://onlinerp.me/get''
        \<and> \<not> startswith ''https://onlinerp.me/get'' ''magnet:''
        \<and> is_external ''https://onlinerp.me/get''
        \<and> scan_cdn_page_loop shop_net ''https://onlinerp.me/get'' = Some None)
   \<and> (tag_href redirect_tag = Some ''/dwn/redirect'' \<and> ''/dwn/redirect'' \<noteq> []
        \<and> \<not> startswith ''/dwn/redirect'' ''magnet:'' \<and> \<not> is_external ''/dwn/redirect''
        \<and> scan_cdn_page_loop shop_net (unwrap_google_url ''/dwn/redirect'')
            = Some (Some ''https://mobdisc.com/fdl/final'')
        \<and> ''https://mobdisc.com/fdl/final'' \<noteq> [])
   \<and> (tag_href gone_tag = Some ''/dwn/gone''
        \<and> \<not> startswith ''/dwn/gone'' ''magnet:'' \<and> \<not> is_external ''/dwn/gone''
        \<and> scan_cdn_page_loop shop_net (unwrap_google_url ''/dwn/gone'') = Some None)
   \<and> process_links shop_net ([magnet_tag] @ [redirect_tag]) []
       = Some [''magnet:?xt=1'', ''https://mobdisc.com/fdl/final'']
   \<and> process_links shop_net [magnet_tag] [] = Some [''magnet:?xt=1'']
   \<and> process_links shop_net [app_tag] [] = Some [''https://mobdisc.com/download/app'']
   \<and> process_links shop_net [onlinerp_tag] [] = Some [''https://onlinerp.me/get'']
   \<and> process_links shop_net [redirect_tag] [] = Some [''https://mobdisc.com/fdl/final'']
   \<and> process_links shop_net [gone_tag] [] = Some []
   \<and> (\<exists>o1 o2. process_links shop_net [magnet_tag] [] = Some o1
          \<and> process_links shop_net [redirect_tag] [] = Some o2
          \<and> [''magnet:?xt=1'', ''https://mobdisc.com/fdl/final''] = o1 @ o2)
   \<and> process_links shop_net
        [\<lparr>tag_href = Some ''magnet:?xt=1'', size_text = Some ''1.2 Gb''\<rparr>,
         \<lparr>tag_href = Some ''/dwn/redirect'', size_text = None\<rparr>] []
       = Some [''magnet:?xt=1'', ''https://mobdisc.com/fdl/final'']
   \<and> (fetch_until_success shop_net ''/game/xyz'' detail_page_valid = Some (Some item_page, 3)
        \<and> process_links shop_net (collect_link_tags item_page) []
            = Some [''magnet:?xt=1'', ''https://mobdisc.com/fdl/final'']
        \<and> [''magnet:?xt=1'', ''https://mobdisc.com/fdl/final''] \<noteq> [])
   \<and> process_item_fully shop_net None ''Game'' ''/game/xyz'' ''https://pdalife.com/img/a.png''
       = Some (Inr (Some
            \<lparr>name = ''Game'', link = unwrap_google_url ''/game/xyz'',
             image = ''https://pdalife.com/img/a.png'',
             download = join '', '' [''magnet:?xt=1'', ''https://mobdisc.com/fdl/final''],
             size = main_size_of (collect_link_tags item_page)\<rparr>))
   \<and> join '', '' [''magnet:?xt=1'', ''https://mobdisc.com/fdl/final'']
       = ''magnet:?xt=1, https://mobdisc.com/fdl/final''"
proof -
  have ha: "tag_href magnet_tag = Some ''magnet:?xt=1'' \<and> startswith ''magnet:?xt=1'' ''magnet:''"
    by code_simp
  have hb: "tag_href app_tag = Some ''https://files.example.org/app''
        \<and> \<not> startswith ''https://files.example.org/app'' ''magnet:''
        \<and> is_external ''https://files.example.org/app''
        \<and> scan_cdn_page_loop shop_net ''https://files.example.org/app''
            = Some (Some ''https://mobdisc.com/download/app'')
        \<and> ''https://mobdisc.com/download/app'' \<noteq> []"
    by code_simp
  have hc: "tag_href onlinerp_tag = Some ''https://onlinerp.me/get''
        \<and> \<not> startswith ''https://onlinerp.me/get'' ''magnet:''
        \<and> is_external ''https://onlinerp.me/get''
        \<and> (scan_cdn_page_loop shop_net ''https://onlinerp.me/get'' = Some None
            \<or> scan_cdn_page_loop shop_net ''https://onlinerp.me/get'' = Some (Some []))"
    by code_simp
  have hd: "tag_href redirect_tag = Some ''/dwn/redirect'' \<and> ''/dwn/redirect'' \<noteq> []
        \<and> \<not> startswith ''/dwn/redirect'' ''magnet:'' \<and> \<not> is_external ''/dwn/redirect''
        \<and> scan_cdn_page_loop shop_net (unwrap_google_url ''/dwn/redirect'')
            = Some (Some ''https://mobdisc.com/fdl/final'')
        \<and> ''https://mobdisc.com/fdl/final'' \<noteq> []"
    by code_simp
  have he: "tag_href gone_tag = Some ''/dwn/gone''
        \<and> \<not> startswith ''/dwn/gone'' ''magnet:'' \<and> \<not> is_external ''/dwn/gone''
        \<and> (scan_cdn_page_loop shop_net (unwrap_google_url ''/dwn/gone'') = Some None
            \<or> scan_cdn_page_loop shop_net (unwrap_google_url ''/dwn/gone'') = Some (Some []))"
    by code_simp
  have hf: "process_links shop_net ([magnet_tag] @ [redirect_tag]) []
       = Some [''magnet:?xt=1'', ''https://mobdisc.com/fdl/final'']"
    by code_simp
  have hg: "scan_cdn_page_loop shop_net (unwrap_google_url ''/dwn/redirect'')
            = Some (Some ''https://mobdisc.com/fdl/final'')
        \<and> ''https://mobdisc.com/fdl/final'' \<noteq> []"
    using hd by blast
  have sc: "scan_cdn_page_loop shop_net ''https://onlinerp.me/get'' = Some None"
    "scan_cdn_page_loop shop_net (unwrap_google_url ''/dwn/gone'') = Some None"
    by code_simp+
  note T = variant_resolution [where net = shop_net and ts = "[]" and acc = "[]"
      and ta = magnet_tag and ma = "''magnet:?xt=1''"
      and tb = app_tag and rb = "''https://files.example.org/app''"
      and db = "''https://mobdisc.com/download/app''"
      and tc = onlinerp_tag and rc = "''https://onlinerp.me/get''"
      and td = redirect_tag and rd = "''/dwn/redirect''" and dd = "''https://mobdisc.com/fdl/final''"
      and te = gone_tag and re = "''/dwn/gone''"
      and ?ts1.0 = "[magnet_tag]" and ?ts2.0 = "[redirect_tag]"
      and out = "[''magnet:?xt=1'', ''https://mobdisc.com/fdl/final'']"
      and final = "''https://mobdisc.com/fdl/final''"
      and ?s1.0 = "Some ''1.2 Gb''" and ?s2.0 = None
      and detail_url = "''/game/xyz''" and soup = item_page and n = 3
      and links = "[''magnet:?xt=1'', ''https://mobdisc.com/fdl/final'']"
      and nm = "''Game''" and img = "''https://pdalife.com/img/a.png''"]
  have hh: "fetch_until_success shop_net ''/game/xyz'' detail_page_valid = Some (Some item_page, 3)
        \<and> process_links shop_net (collect_link_tags item_page) []
            = Some [''magnet:?xt=1'', ''https://mobdisc.com/fdl/final'']
        \<and> [''magnet:?xt=1'', ''https://mobdisc.com/fdl/final''] \<noteq> []"
    by code_simp
  have c8: "process_item_fully shop_net None ''Game'' ''/game/xyz'' ''https://pdalife.com/img/a.png''
       = Some (Inr (Some
            \<lparr>name = ''Game'', link = unwrap_google_url ''/game/xyz'',
             image = ''https://pdalife.com/img/a.png'',
             download = join '', '' [''magnet:?xt=1'', ''https://mobdisc.com/fdl/final''],
             size = main_size_of (collect_link_tags item_page)\<rparr>))"
    using T hh by blast
  have c9: "join '', '' [''magnet:?xt=1'', ''https://mobdisc.com/fdl/final'']
       = ''magnet:?xt=1, https://mobdisc.com/fdl/final''"
    by simp
  have c1: "process_links shop_net [magnet_tag] [] = Some [''magnet:?xt=1'']"
    using T ha by simp
  have c2: "process_links shop_net [app_tag] [] = Some [''https://mobdisc.com/download/app'']"
    using T hb by simp
  have c3: "process_links shop_net [onlinerp_tag] [] = Some [''https://onlinerp.me/get'']"
    using T hc by simp
  have c4: "process_links shop_net [redirect_tag] [] = Some [''https://mobdisc.com/fdl/final'']"
    using T hd by simp
  have c5: "process_links shop_net [gone_tag] [] = Some []"
    using T he by simp
  have c6: "\<exists>o1 o2. process_links shop_net [magnet_tag] [] = Some o1
          \<and> process_links shop_net [redirect_tag] [] = Some o2
          \<and> [''magnet:?xt=1'', ''https://mobdisc.com/fdl/final''] = o1 @ o2"
    using T hf by blast
  have c7: "process_links shop_net
        [\<lparr>tag_href = Some ''magnet:?xt=1'', size_text = Some ''1.2 Gb''\<rparr>,
         \<lparr>tag_href = Some ''/dwn/redirect'', size_text = None\<rparr>] []
       = Some [''magnet:?xt=1'', ''https://mobdisc.com/fdl/final'']"
    using T hg by blast
  show ?thesis
    using ha hb hc hd he hf sc c1 c2 c3 c4 c5 c6 c7 hh c8 c9 by blast
qed

section \<open>No record without download links\<close>

lemma process_links_nonempty:
  "process_links net ts acc = Some out \<Longrightarrow> \<forall>l\<in>set acc. l \<noteq> [] \<Longrightarrow> \<forall>l\<in>set out. l \<noteq> []"
proof (induction ts arbitrary: acc)
  case Nil
  then show ?case by simp
next
  case (Cons t ts)
  show ?case
  proof (cases "tag_href t")
    case None
    with Cons show ?thesis by simp
  next
    case (Some raw)
    show ?thesis
    proof (cases "raw = []")
      case True
      with Some Cons show ?thesis by simp
    next
      case ne: False
      show ?thesis
      proof (cases "startswith raw ''magnet:''")
        case True
        with Some ne Cons.prems have "process_links net ts (acc @ [raw]) = Some out" by simp
        moreover have "\<forall>l\<in>set (acc @ [raw]). l \<noteq> []" using ne Cons.prems(2) by simp
        ultimately show ?thesis by (rule Cons.IH)
      next
        case nm: False
        show ?thesis
        proof (cases "is_external raw")
          case True
          with Some ne nm Cons.prems(1) obtain d where
            run: "process_links net ts (acc @ [if truthy d then the d else raw]) = Some out"
            by (auto split: option.splits)
          have "(if truthy d then the d else raw) \<noteq> []"
            using ne by (auto simp: truthy_def split: option.splits)
          then have "\<forall>l\<in>set (acc @ [if truthy d then the d else raw]). l \<noteq> []"
            using Cons.prems(2) by simp
          with run show ?thesis by (rule Cons.IH)
        next
          case False
          with Some ne nm Cons.prems(1) obtain d where
            run: "(if truthy d then process_links net ts (acc @ [the d])
                   else process_links net ts acc) = Some out"
            by (auto split: option.splits)
          show ?thesis
          proof (cases "truthy d")
            case True
            then have "the d \<noteq> []" by (auto simp: truthy_def split: option.splits)
            then have "\<forall>l\<in>set (acc @ [the d]). l \<noteq> []" using Cons.prems(2) by simp
            moreover from run True have "process_links net ts (acc @ [the d]) = Some out" by simp
            ultimately show ?thesis using Cons.IH by blast
          next
            case False
            with run have "process_links net ts acc = Some out" by simp
            then show ?thesis using Cons.prems(2) by (rule Cons.IH)
          qed
        qed
      qed
    qed
  qed
qed

lemma join_nonempty: "xs \<noteq> [] \<Longrightarrow> \<forall>x\<in>set xs. x \<noteq> [] \<Longrightarrow> join sep xs \<noteq> []"
  by (induction sep xs rule: join.induct) auto

text \<open>
  Claim C5. A record that the item resolver returns has a non-empty list of download
  links behind its \<open>download\<close> field, each link non-empty, and so a non-empty field; and
  when the loop over the variants ends with an empty list, the resolver returns absent.
\<close>

theorem no_record_without_links:
  "(process_item_fully net fault nm detail_url img = Some (Inr (Some r)) \<longrightarrow>
      (\<exists>soup n links.
         fetch_until_success net detail_url detail_page_valid = Some (Some soup, n)
         \<and> process_links net (collect_link_tags soup) [] = Some links
         \<and> links \<noteq> [] \<and> (\<forall>l\<in>set links. l \<noteq> [])
         \<and> download r = join '', '' links \<and> download r \<noteq> []))
   \<and> (fetch_until_success net detail_url' detail_page_valid = Some (Some soup', n')
        \<and> process_links net (collect_link_tags soup') [] = Some [] \<longrightarrow>
      process_item_fully net fault' nm' detail_url' img' = Some (Inr None))"
proof (intro conjI impI)
  assume a: "process_item_fully net fault nm detail_url img = Some (Inr (Some r))"
  then have f: "fault = None"
    by (auto simp: process_item_fully_def process_item_body_def except_return_None_def
        split: option.splits)
  from a f obtain soup n where
    fe: "fetch_until_success net detail_url detail_page_valid = Some (Some soup, n)"
    by (auto simp: process_item_fully_def process_item_body_def except_return_None_def
        split: option.splits)
  from a f fe obtain links where
    pl: "process_links net (collect_link_tags soup) [] = Some links"
    by (auto simp: process_item_fully_def process_item_body_def except_return_None_def Let_def
        split: option.splits if_splits)
  from a f fe pl have ne: "links \<noteq> []" and d: "download r = join '', '' links"
    by (auto simp: process_item_fully_def process_item_body_def except_return_None_def Let_def
        split: option.splits if_splits)
  from pl have all: "\<forall>l\<in>set links. l \<noteq> []"
    using process_links_nonempty [of net "collect_link_tags soup" "[]" links] by simp
  from ne all d have "download r \<noteq> []" using join_nonempty [of links "'', ''"] by simp
  with fe pl ne all d
  show "\<exists>soup n links.
         fetch_until_success net detail_url detail_page_valid = Some (Some soup, n)
         \<and> process_links net (collect_link_tags soup) [] = Some links
         \<and> links \<noteq> [] \<and> (\<forall>l\<in>set links. l \<noteq> [])
         \<and> download r = join '', '' links \<and> download r \<noteq> []"
    by blast
next
  assume "fetch_until_success net detail_url' detail_page_valid = Some (Some soup', n')
        \<and> process_links net (collect_link_tags soup') [] = Some []"
  then show "process_item_fully net fault' nm' detail_url' img' = Some (Inr None)"
    by (auto simp: process_item_fully_def process_item_body_def except_return_None_def Let_def
        split: option.splits)
qed

theorem no_record_without_links_witness:
  "process_item_fully shop_net None ''Game'' ''/game/xyz'' ''https://pdalife.com/img/a.png''
     = Some (Inr (Some (game_item ''Game'')))
   \<and> (fetch_until_success shop_net ''/game/dead'' detail_page_valid = Some (Some dead_page, 1)
       \<and> process_links shop_net (collect_link_tags dead_page) [] = Some [])
   \<and> (\<exists>soup n links.
         fetch_until_success shop_net ''/game/xyz'' detail_page_valid = Some (Some soup, n)
         \<and> process_links shop_net (collect_link_tags soup) [] = Some links
         \<and> links \<noteq> [] \<and> (\<forall>l\<in>set links. l \<noteq> [])
         \<and> download (game_item ''Game'') = join '', '' links
         \<and> download (game_item ''Game'') \<noteq> [])
   \<and> process_item_fully shop_net None ''Dead'' ''/game/dead'' ''https://pdalife.com/img/a.png''
       = Some (Inr None)"
proof -
  have h1: "process_item_fully shop_net None ''Game'' ''/game/xyz'' ''https://pdalife.com/img/a.png''
     = Some (Inr (Some (game_item ''Game'')))"
    by code_simp
  have h2: "fetch_until_success shop_net ''/game/dead'' detail_page_valid = Some (Some dead_page, 1)
       \<and> process_links shop_net (collect_link_tags dead_page) [] = Some []"
    by code_simp
  note T = no_record_without_links [where net = shop_net and fault = None and nm = "''Game''"
      and detail_url = "''/game/xyz''" and img = "''https://pdalife.com/img/a.png''"
      and r = "game_item ''Game''" and detail_url' = "''/game/dead''" and soup' = dead_page
      and n' = 1 and fault' = None and nm' = "''Dead''" and img' = "''https://pdalife.com/img/a.png''"]
  show ?thesis using T h1 h2 by blast
qed

section \<open>An exception inside one item of a batch\<close>


lemma run_tasks_length: "length (run_tasks net faults k tasks) = length tasks"
  by (induction net faults k tasks rule: run_tasks.induct) auto



lemma gather_results: "(gather outs = Some (Inr rs)) = (outs = map (\<lambda>r. Some (Inr r)) rs)"
proof (induction outs arbitrary: rs)
  case Nil
  show ?case by auto
next
  case (Cons t ts)
  show ?case
  proof (cases t)
    case None
    then show ?thesis by (cases rs) (auto split: option.splits sum.splits)
  next
    case (Some v)
    show ?thesis
    proof (cases v)
      case (Inl e)
      with Some show ?thesis by (cases rs) auto
    next
      case (Inr r)
      show ?thesis
      proof (cases rs)
        case Nil
        with Some Inr show ?thesis by (auto split: option.splits sum.splits)
      next
        case (Cons r' rs')
        with Some Inr Cons.IH [of rs'] show ?thesis
          by (auto split: option.splits sum.splits)
      qed
    qed
  qed
qed












section \<open>The payload of a search without entries\<close>

text \<open>
  Claim C7 says that every answer of \<open>GET /search\<close> has the fields \<open>success\<close>, \<open>query\<close>,
  \<open>limit\<close>, \<open>count\<close> and \<open>results\<close>. When no entry was collected, the handler returns
  at line 407 a dictionary of \<open>success\<close>, \<open>count\<close> and \<open>results\<close> only: for the query
  \<open>zzz\<close>, whose page reports no result, the payload has neither \<open>query\<close> nor \<open>limit\<close>,
  while the return at line 438, here for the query \<open>solo\<close>, has both.
\<close>

theorem empty_search_payload:
  "search_apps site_net no_faults ''zzz'' 5
     = Some (Inr [(''success'', JBool True), (''count'', JInt 0), (''results'', JItems [])])
   \<and> map_of [(''success'', JBool True), (''count'', JInt 0), (''results'', JItems [])] ''query''
       = None
   \<and> map_of [(''success'', JBool True), (''count'', JInt 0), (''results'', JItems [])] ''limit''
       = None
   \<and> search_apps site_net no_faults ''solo'' 5
       = Some (Inr [(''success'', JBool True), (''query'', JStr ''solo''), (''limit'', JInt 5),
                    (''count'', JInt 1), (''results'', JItems [game_item ''Solo''])])"
  by code_simp

section \<open>A search page without a maximum page\<close>

text \<open>
  Claim C10. When the first search page has no load-more element, or that element has no
  \<open>data-max_page\<close> attribute, or \<open>int\<close> rejects its value, \<open>max_page\<close> keeps its initial
  value 1 and the pagination requests that one page only: it ends with the entries of that
  page (or with none, when the page reports no result or has no entry), however many
  the limit asks for.
\<close>

theorem missing_max_page_one_page:
  assumes "0 < limit"
    and "fetch_until_success net (search_url query 1) search_page_valid = Some (Some soup, n)"
    and "load_more soup = None \<or> load_more soup = Some None
         \<or> (\<exists>v. load_more soup = Some (Some v) \<and> py_int v = None)"
  shows "update_max_page soup 1 = 1
         \<and> (\<exists>collected. paginate net query limit [] 1 1 [] = Some (collected, [(1, 0)])
               \<and> (collected = [] \<or> collected = catalog_items soup))"
proof -
  from assms(3) have m: "update_max_page soup 1 = 1"
    by (auto simp: update_max_page_def)
  have "paginate net query limit [] 1 1 [] = Some ([], [(1, 0)])
        \<or> paginate net query limit [] 1 1 [] = Some (catalog_items soup, [(1, 0)])"
    using assms(1,2) m by (subst paginate.simps, subst paginate.simps) simp
  with m show ?thesis by auto
qed

theorem missing_max_page_one_page_witness:
  "(0::int) < 5
   \<and> fetch_until_success site_net (search_url ''solo'' 1) search_page_valid = Some (Some solo_page, 1)
   \<and> load_more solo_page = None
   \<and> int (length (catalog_items solo_page)) < 5
   \<and> update_max_page solo_page 1 = 1
   \<and> paginate site_net ''solo'' 5 [] 1 1 [] = Some (catalog_items solo_page, [(1, 0)])"
proof -
  have h1: "(0::int) < 5" by simp
  have h2: "fetch_until_success site_net (search_url ''solo'' 1) search_page_valid
      = Some (Some solo_page, 1)"
    by code_simp
  have h3: "load_more solo_page = None" by code_simp
  have h4: "int (length (catalog_items solo_page)) < 5" by code_simp
  have ne: "catalog_items solo_page \<noteq> []" by code_simp
  have p: "paginate site_net ''solo'' 5 [] 1 1 [] \<noteq> Some ([], [(1, 0)])" by code_simp
  from missing_max_page_one_page [of 5 site_net "''solo''" solo_page 1] h1 h2 h3
  have "update_max_page solo_page 1 = 1
         \<and> (\<exists>collected. paginate site_net ''solo'' 5 [] 1 1 [] = Some (collected, [(1, 0)])
               \<and> (collected = [] \<or> collected = catalog_items solo_page))"
    by blast
  with p h1 h2 h3 h4 show ?thesis by auto
qed

section \<open>Pagination, truncation and the order of the results\<close>

lemma paginate_log:
  "paginate net query limit collected current_page max_page fetched = Some (c, f) \<Longrightarrow>
   1 \<le> current_page \<Longrightarrow>
   (\<forall>(p, n)\<in>set fetched. int n < limit) \<and> map fst fetched = [1..<current_page] \<Longrightarrow>
   (\<forall>(p, n)\<in>set f. int n < limit) \<and> map fst f = [1..<Suc (length f)]"
proof (induction net query limit collected current_page max_page fetched rule: paginate.induct)
  case (1 net query limit collected current_page max_page fetched)
  have len: "length fetched = current_page - 1"
    using "1.prems"(3) by (metis length_map length_upt)
  show ?case
  proof (cases "int (length collected) < limit")
    case False
    with "1.prems"(1) have "f = fetched"
      by (subst (asm) paginate.simps) simp
    with "1.prems"(2,3) len show ?thesis by simp
  next
    case lt: True
    let ?f' = "fetched @ [(current_page, length collected)]"
    have inv: "(\<forall>(p, n)\<in>set ?f'. int n < limit) \<and> map fst ?f' = [1..<Suc current_page]"
      using "1.prems"(2,3) lt by auto
    have fin: "f = ?f' \<Longrightarrow> ?thesis"
      using inv len "1.prems"(2) by simp
    show ?thesis
    proof (cases "fetch_until_success net (search_url query current_page) search_page_valid")
      case None
      with "1.prems"(1) lt show ?thesis
        by (subst (asm) paginate.simps) simp
    next
      case (Some res)
      obtain r n where res: "res = (r, n)" by (cases res) auto
      show ?thesis
      proof (cases r)
        case None
        with "1.prems"(1) lt Some res have "f = ?f'"
          by (subst (asm) paginate.simps) auto
        then show ?thesis by (rule fin)
      next
        case soup: (Some soup)
        show ?thesis
        proof (cases "contains ''Found 0 responses'' (page_text soup) \<or> catalog_items soup = []
            \<or> int current_page \<ge> update_max_page soup max_page")
          case True
          with "1.prems"(1) lt Some res soup have "f = ?f'"
            by (subst (asm) paginate.simps) (auto split: if_splits)
          then show ?thesis by (rule fin)
        next
          case False
          with "1.prems"(1) lt Some res soup
          have run: "paginate net query limit (collected @ catalog_items soup) (Suc current_page)
              (update_max_page soup max_page) ?f' = Some (c, f)"
            by (subst (asm) paginate.simps) (auto split: if_splits)
          show ?thesis
            using "1.IH" [OF lt Some res [symmetric] soup _ _ _ run _ inv] False by simp
        qed
      qed
    qed
  qed
qed

lemma slice_to_positive: "0 < n \<Longrightarrow> slice_to xs n = take (nat n) xs"
  by (simp add: slice_to_def)

lemma build_tasks_length: "build_tasks xs = Inr tasks \<Longrightarrow> length tasks \<le> length xs"
proof (induction xs arbitrary: tasks)
  case Nil
  then show ?case by simp
next
  case (Cons it rest)
  then show ?case
    by (auto split: option.splits sum.splits prod.splits)
qed

lemma build_tasks_order:
  "build_tasks xs = Inr tasks \<Longrightarrow>
   map fst tasks = map (\<lambda>it. fst (the (title it))) (filter (\<lambda>it. title it \<noteq> None) xs)"
proof (induction xs arbitrary: tasks)
  case Nil
  then show ?case by simp
next
  case (Cons it rest)
  then show ?case
    by (auto split: option.splits sum.splits prod.splits)
qed

lemma run_tasks_nth:
  "k < length tasks \<Longrightarrow>
   run_tasks net faults i tasks ! k
     = (case tasks ! k of (nm, l, img) \<Rightarrow> process_item_fully net (faults (i + k)) nm l img)"
proof (induction tasks arbitrary: i k)
  case Nil
  then show ?case by simp
next
  case (Cons t ts)
  obtain nm l img where t: "t = (nm, l, img)" by (cases t) auto
  show ?case
  proof (cases k)
    case 0
    with t show ?thesis by simp
  next
    case (Suc k')
    with Cons.prems have "k' < length ts" by simp
    from Cons.IH [OF this, of "Suc i"] Suc t show ?thesis by simp
  qed
qed

lemma drop_none_length: "length (drop_none xs) \<le> length xs"
  by (induction xs rule: drop_none.induct) auto

text \<open>
  Claim C4. For a positive limit, when the search returns a payload: every page was
  requested while fewer than \<open>limit\<close> entries were held, and the pages requested are
  1, 2, ... without a gap or a repetition; the entries given to the item resolver are the
  first \<open>limit\<close> of the collected ones, exactly \<open>limit\<close> of them when that many were
  collected; the tasks are those of the entries with a title link, in the order of the
  entries; and the results are the resolutions of the tasks, in the order of the tasks,
  with the absent ones left out, so at most \<open>limit\<close> of them.
\<close>

theorem search_stops_truncates_orders:
  assumes "0 < limit" and "search_apps net faults query limit = Some (Inr payload)"
  shows "\<exists>collected fetched tasks results.
      paginate net query limit [] 1 1 [] = Some (collected, fetched)
    \<and> (\<forall>(p, n)\<in>set fetched. int n < limit)
    \<and> map fst fetched = [1..<Suc (length fetched)]
    \<and> slice_to collected limit = take (nat limit) collected
    \<and> length (slice_to collected limit) \<le> nat limit
    \<and> (limit \<le> int (length collected) \<longrightarrow> length (slice_to collected limit) = nat limit)
    \<and> build_tasks (slice_to collected limit) = Inr tasks
    \<and> map fst tasks = map (\<lambda>it. fst (the (title it)))
          (filter (\<lambda>it. title it \<noteq> None) (slice_to collected limit))
    \<and> length results = length tasks
    \<and> (\<forall>k<length tasks.
          case tasks ! k of
            (nm, l, img) \<Rightarrow> process_item_fully net (faults k) nm l img = Some (Inr (results ! k)))
    \<and> map_of payload ''results'' = Some (JItems (drop_none results))
    \<and> length (drop_none results) \<le> nat limit"
proof -
  from assms(2) obtain collected fetched where
    p: "paginate net query limit [] 1 1 [] = Some (collected, fetched)"
    by (auto simp: search_apps_def split: option.splits)
  have log: "(\<forall>(p, n)\<in>set fetched. int n < limit) \<and> map fst fetched = [1..<Suc (length fetched)]"
    using paginate_log [OF p] by simp
  have sl: "slice_to collected limit = take (nat limit) collected"
    using assms(1) by (rule slice_to_positive)
  have sl_le: "length (slice_to collected limit) \<le> nat limit"
    by (simp add: sl)
  have sl_eq: "limit \<le> int (length collected) \<longrightarrow> length (slice_to collected limit) = nat limit"
    using assms(1) by (auto simp: sl)
  have "\<exists>tasks results.
      build_tasks (slice_to collected limit) = Inr tasks
    \<and> gather (run_tasks net faults 0 tasks) = Some (Inr results)
    \<and> map_of payload ''results'' = Some (JItems (drop_none results))"
  proof (cases "collected = []")
    case True
    with assms(2) p have "payload = [(''success'', JBool True), (''count'', JInt 0), (''results'', JItems [])]"
      by (simp add: search_apps_def)
    with True show ?thesis by (simp add: slice_to_def)
  next
    case False
    with assms(2) p show ?thesis
      by (auto simp: search_apps_def Let_def split: sum.splits option.splits)
  qed
  then obtain tasks results where
    b: "build_tasks (slice_to collected limit) = Inr tasks"
    and g: "gather (run_tasks net faults 0 tasks) = Some (Inr results)"
    and r: "map_of payload ''results'' = Some (JItems (drop_none results))"
    by blast
  from g have outs: "run_tasks net faults 0 tasks = map (\<lambda>r. Some (Inr r)) results"
    by (simp add: gather_results)
  then have len: "length results = length tasks"
    using run_tasks_length [of net faults 0 tasks] by simp
  have each: "\<forall>k<length tasks.
          case tasks ! k of
            (nm, l, img) \<Rightarrow> process_item_fully net (faults k) nm l img = Some (Inr (results ! k))"
  proof (intro allI impI)
    fix k
    assume k: "k < length tasks"
    have "run_tasks net faults 0 tasks ! k = Some (Inr (results ! k))"
      using outs k len by simp
    with run_tasks_nth [OF k, of net faults 0]
    show "case tasks ! k of
            (nm, l, img) \<Rightarrow> process_item_fully net (faults k) nm l img = Some (Inr (results ! k))"
      by (auto split: prod.splits)
  qed
  have "length (drop_none results) \<le> length tasks"
    using drop_none_length [of results] len by simp
  also have "\<dots> \<le> length (slice_to collected limit)"
    using b by (rule build_tasks_length)
  finally have cnt: "length (drop_none results) \<le> nat limit"
    using sl_le by simp
  from p log sl sl_le sl_eq b build_tasks_order [OF b] len each r cnt
  show ?thesis by blast
qed

theorem search_stops_truncates_orders_witness:
  "(0::int) < 5
   \<and> search_apps site_net no_faults ''game'' 5 = Some (Inr game_payload)
   \<and> paginate site_net ''game'' 5 [] 1 1 [] = Some (game_collected, [(1, 0), (2, 2), (3, 4)])
   \<and> length game_collected = 6
   \<and> (\<exists>collected fetched tasks results.
      paginate site_net ''game'' 5 [] 1 1 [] = Some (collected, fetched)
    \<and> (\<forall>(p, n)\<in>set fetched. int n < 5)
    \<and> map fst fetched = [1..<Suc (length fetched)]
    \<and> slice_to collected 5 = take (nat 5) collected
    \<and> length (slice_to collected 5) \<le> nat 5
    \<and> (5 \<le> int (length collected) \<longrightarrow> length (slice_to collected 5) = nat 5)
    \<and> build_tasks (slice_to collected 5) = Inr tasks
    \<and> map fst tasks = map (\<lambda>it. fst (the (title it)))
          (filter (\<lambda>it. title it \<noteq> None) (slice_to collected 5))
    \<and> length results = length tasks
    \<and> (\<forall>k<length tasks.
          case tasks ! k of
            (nm, l, img) \<Rightarrow> process_item_fully site_net (no_faults k) nm l img
                              = Some (Inr (results ! k)))
    \<and> map_of game_payload ''results'' = Some (JItems (drop_none results))
    \<and> length (drop_none results) \<le> nat 5)"
proof -
  have h1: "(0::int) < 5" by simp
  have h2: "search_apps site_net no_faults ''game'' 5 = Some (Inr game_payload)"
    by code_simp
  have h3: "paginate site_net ''game'' 5 [] 1 1 [] = Some (game_collected, [(1, 0), (2, 2), (3, 4)])"
    by code_simp
  have h4: "length game_collected = 6"
    by code_simp
  show ?thesis
    using search_stops_truncates_orders [OF h1 h2] h1 h2 h3 h4 by blast
qed

section \<open>Normalizing twice\<close>

lemma unwrap_steps:
  "unwrap_google_url url = (if url = [] then [] else finish_url (cleaned url))"
  by (simp add: unwrap_google_url_def cleaned_def finish_url_def Let_def)

lemma contains_empty: "contains [] s"
  by (cases s) (simp_all add: startswith_def)

lemma startswith_contains: "startswith s p \<Longrightarrow> contains p s"
  by (cases s) (auto simp: startswith_def)

lemma startswith_append: "startswith s p \<Longrightarrow> startswith (s @ t) p"
proof -
  assume a: "startswith s p"
  then have "length (take (length p) s) = length p"
    unfolding startswith_def by simp
  then have "length p \<le> length s"
    by simp
  with a show ?thesis by (simp add: startswith_def)
qed

lemma contains_append_left: "contains p s \<Longrightarrow> contains p (a @ s)"
  by (induction a) auto

lemma contains_append_right: "contains p s \<Longrightarrow> contains p (s @ t)"
proof (induction s)
  case Nil
  then show ?case by (simp add: contains_empty)
next
  case (Cons c cs)
  then show ?case by (auto dest: startswith_append [where t = t])
qed

lemma contains_longer_pattern: "contains (a @ b) s \<Longrightarrow> contains b s"
proof (induction s)
  case Nil
  then show ?case by simp
next
  case (Cons c cs)
  show ?case
  proof (cases "startswith (c # cs) (a @ b)")
    case True
    then have "c # cs = a @ b @ drop (length (a @ b)) (c # cs)"
      unfolding startswith_def by (metis append_assoc append_take_drop_id)
    moreover have "contains b (a @ b @ drop (length (a @ b)) (c # cs))"
      by (rule contains_append_left) (rule startswith_contains, simp add: startswith_def)
    ultimately show ?thesis by simp
  next
    case False
    with Cons show ?thesis by simp
  qed
qed

lemma contains_skip_prefix:
  "p \<noteq> [] \<Longrightarrow> hd p \<notin> set d \<Longrightarrow> contains p (d @ s) = contains p s"
proof (induction d)
  case Nil
  show ?case by simp
next
  case (Cons a d)
  then have "\<not> startswith (a # d @ s) p"
    by (cases p) (auto simp: startswith_def)
  with Cons show ?case by simp
qed

lemma percent_decode_no_percent: "CHR ''%'' \<notin> set s \<Longrightarrow> percent_decode s = s"
  by (induction s rule: percent_decode.induct) auto

lemma utf8_replace_ascii: "\<forall>c\<in>set s. is_ascii c \<Longrightarrow> utf8_replace s = s"
  by (induction s) (auto simp: is_ascii_def Let_def)

lemma unquote_no_percent: "CHR ''%'' \<notin> set s \<Longrightarrow> unquote s = s"
proof (induction s rule: unquote.induct)
  case 1
  show ?case by simp
next
  case (2 c cs)
  show ?case
  proof (cases "is_ascii c")
    case True
    let ?run = "takeWhile is_ascii (c # cs)"
    have "CHR ''%'' \<notin> set ?run"
      using "2.prems" by (auto dest: set_takeWhileD)
    then have "percent_decode ?run = ?run"
      by (rule percent_decode_no_percent)
    moreover have "\<forall>x\<in>set ?run. is_ascii x"
      by (auto dest: set_takeWhileD)
    then have "utf8_replace ?run = ?run"
      by (rule utf8_replace_ascii)
    moreover have "CHR ''%'' \<notin> set (dropWhile is_ascii cs)"
      using "2.prems" by (auto dest: set_dropWhileD)
    with True have "unquote (dropWhile is_ascii cs) = dropWhile is_ascii cs"
      by (rule "2.IH"(1))
    ultimately have "unquote (c # cs) = ?run @ dropWhile is_ascii cs"
      using True by simp
    also have "\<dots> = c # cs"
      using True by simp
    finally show ?thesis .
  next
    case False
    with "2.prems" "2.IH"(2) show ?thesis by simp
  qed
qed

lemma replace_all_absent: "\<not> contains old s \<Longrightarrow> replace_all old new s = s"
  by (induction old new s rule: replace_all.induct) auto

lemma split_first_absent: "\<not> contains sep s \<Longrightarrow> split_first sep s = s"
  by (induction sep s rule: split_first.induct) auto

lemma split_first_prefix: "\<exists>t. s = split_first sep s @ t"
  by (induction sep s rule: split_first.induct) auto

lemma split_first_free: "sep \<noteq> [] \<Longrightarrow> \<not> contains sep (split_first sep s)"
proof (induction sep s rule: split_first.induct)
  case (1 sep)
  then show ?case by simp
next
  case (2 sep c cs)
  show ?case
  proof (cases "startswith (c # cs) sep")
    case True
    with "2.prems" show ?thesis by simp
  next
    case False
    obtain t where t: "cs = split_first sep cs @ t"
      using split_first_prefix by blast
    have "\<not> startswith (c # split_first sep cs) sep"
    proof
      assume "startswith (c # split_first sep cs) sep"
      then have "startswith ((c # split_first sep cs) @ t) sep"
        by (rule startswith_append)
      with t False show False by simp
    qed
    with False "2.IH" "2.prems" show ?thesis by simp
  qed
qed

lemma cleaned_free:
  "\<not> contains ''?_x_tr_'' (cleaned x) \<and> \<not> contains ''&_x_tr_'' (cleaned x)"
proof -
  let ?c1 = "split_first ''?_x_tr_''
          (replace_all ''.translate.goog'' []
             (replace_all ''-com.translate.goog'' ''.com'' (unquote x)))"
  have c: "cleaned x = split_first ''&_x_tr_'' ?c1" by (simp add: cleaned_def)
  have a: "\<not> contains ''?_x_tr_'' ?c1" by (rule split_first_free) simp
  obtain t where t: "?c1 = cleaned x @ t"
    using split_first_prefix [of ?c1 "''&_x_tr_''"] c by auto
  have "\<not> contains ''?_x_tr_'' (cleaned x)"
  proof
    assume "contains ''?_x_tr_'' (cleaned x)"
    then have "contains ''?_x_tr_'' (cleaned x @ t)" by (rule contains_append_right)
    with t a show False by simp
  qed
  moreover have "\<not> contains ''&_x_tr_'' (cleaned x)"
    unfolding c by (rule split_first_free) simp
  ultimately show ?thesis by simp
qed

lemma cleaned_fixed:
  assumes "CHR ''%'' \<notin> set y" and "\<not> contains ''.translate.goog'' y"
    and "\<not> contains ''?_x_tr_'' y" and "\<not> contains ''&_x_tr_'' y"
  shows "cleaned y = y"
proof -
  have "\<not> contains ''-com.translate.goog'' y"
    using contains_longer_pattern [of "''-com''" "''.translate.goog''" y] assms(2) by auto
  with assms show ?thesis
    by (simp add: cleaned_def unquote_no_percent replace_all_absent split_first_absent)
qed

lemma url_match_here_shape:
  assumes "url_match_here s = Some m"
  shows "\<exists>scheme run post. (scheme = ''https://'' \<or> scheme = ''http://'') \<and> m = scheme @ run
           \<and> run \<noteq> [] \<and> CHR ''&'' \<notin> set run \<and> s = m @ post"
proof (cases "startswith s ''https://''")
  case True
  let ?run = "takeWhile (\<lambda>c. c \<noteq> CHR ''&'') (drop 8 s)"
  have "length ''https://'' = 8" by simp
  with True have "take 8 s = ''https://''"
    unfolding startswith_def by metis
  then have s: "s = ''https://'' @ drop 8 s"
    using append_take_drop_id [of 8 s] by simp
  from assms True have m: "m = ''https://'' @ ?run" and ne: "?run \<noteq> []"
    by (auto simp: url_match_here_def Let_def split: if_splits)
  have "CHR ''&'' \<notin> set ?run"
    by (auto dest: set_takeWhileD)
  moreover have "s = m @ dropWhile (\<lambda>c. c \<noteq> CHR ''&'') (drop 8 s)"
    using s m by (metis append_assoc takeWhile_dropWhile_id)
  ultimately show ?thesis using m ne by blast
next
  case False
  let ?run = "takeWhile (\<lambda>c. c \<noteq> CHR ''&'') (drop 7 s)"
  from assms False have h: "startswith s ''http://''"
    by (auto simp: url_match_here_def Let_def split: if_splits)
  moreover have "length ''http://'' = 7" by simp
  ultimately have "take 7 s = ''http://''"
    unfolding startswith_def by metis
  then have s: "s = ''http://'' @ drop 7 s"
    using append_take_drop_id [of 7 s] by simp
  from assms False h have m: "m = ''http://'' @ ?run" and ne: "?run \<noteq> []"
    by (auto simp: url_match_here_def Let_def split: if_splits)
  have "CHR ''&'' \<notin> set ?run"
    by (auto dest: set_takeWhileD)
  moreover have "s = m @ dropWhile (\<lambda>c. c \<noteq> CHR ''&'') (drop 7 s)"
    using s m by (metis append_assoc takeWhile_dropWhile_id)
  ultimately show ?thesis using m ne by blast
qed

lemma re_search_url_shape:
  "re_search_url s = Some m \<Longrightarrow>
   \<exists>scheme run pre post. (scheme = ''https://'' \<or> scheme = ''http://'') \<and> m = scheme @ run
      \<and> run \<noteq> [] \<and> CHR ''&'' \<notin> set run \<and> s = pre @ m @ post"
proof (induction s)
  case Nil
  then show ?case by simp
next
  case (Cons c cs)
  show ?case
  proof (cases "url_match_here (c # cs)")
    case None
    with Cons.prems have "re_search_url cs = Some m" by simp
    from Cons.IH [OF this] obtain scheme run pre post where
      "(scheme = ''https://'' \<or> scheme = ''http://'') \<and> m = scheme @ run
        \<and> run \<noteq> [] \<and> CHR ''&'' \<notin> set run \<and> cs = pre @ m @ post"
      by blast
    then have "(scheme = ''https://'' \<or> scheme = ''http://'') \<and> m = scheme @ run
        \<and> run \<noteq> [] \<and> CHR ''&'' \<notin> set run \<and> c # cs = (c # pre) @ m @ post"
      by simp
    then show ?thesis by blast
  next
    case (Some m')
    with Cons.prems have "m' = m" by simp
    with Some url_match_here_shape [of "c # cs" m] obtain scheme run post where
      "(scheme = ''https://'' \<or> scheme = ''http://'') \<and> m = scheme @ run
        \<and> run \<noteq> [] \<and> CHR ''&'' \<notin> set run \<and> c # cs = m @ post"
      by blast
    then have "(scheme = ''https://'' \<or> scheme = ''http://'') \<and> m = scheme @ run
        \<and> run \<noteq> [] \<and> CHR ''&'' \<notin> set run \<and> c # cs = [] @ m @ post"
      by simp
    then show ?thesis by blast
  qed
qed

lemma takeWhile_all: "CHR ''&'' \<notin> set run \<Longrightarrow> takeWhile (\<lambda>c. c \<noteq> CHR ''&'') run = run"
  by (induction run) auto

lemma re_search_url_fixed:
  assumes "scheme = ''https://'' \<or> scheme = ''http://''"
    and "run \<noteq> []" and "CHR ''&'' \<notin> set run"
  shows "re_search_url (scheme @ run) = Some (scheme @ run)"
proof -
  have "url_match_here (scheme @ run) = Some (scheme @ run)"
    using assms by (auto simp: url_match_here_def startswith_def takeWhile_all)
  moreover have "scheme @ run \<noteq> []" using assms(2) by simp
  ultimately show ?thesis by (cases "scheme @ run") simp_all
qed

lemma finish_url_fixed:
  assumes "scheme = ''https://'' \<or> scheme = ''http://''"
    and "run \<noteq> []" and "CHR ''&'' \<notin> set run"
  shows "finish_url (scheme @ run) = scheme @ run"
proof -
  have "\<not> startswith (scheme @ run) ''/''"
    using assms(1) by (auto simp: startswith_def)
  then show ?thesis
    using re_search_url_fixed [OF assms] by (simp add: finish_url_def)
qed

lemma twice_when_clean:
  assumes c: "CHR ''%'' \<notin> set (finish_url c)"
    and g: "\<not> contains ''.translate.goog'' (finish_url c)"
    and a: "contains ''http'' (drop_chars 8 (finish_url c)) \<longrightarrow> CHR ''&'' \<notin> set (finish_url c)"
    and q: "\<not> contains ''?_x_tr_'' c" and r: "\<not> contains ''&_x_tr_'' c"
  shows "cleaned (finish_url c) = finish_url c \<and> finish_url (finish_url c) = finish_url c"
proof (cases "startswith c ''/''")
  case True
  define d where "d = (if startswith c ''/fdl/'' then ''mobdisc.com'' else ''pdalife.com'')"
  have y: "finish_url c = ''https://'' @ (d @ c)"
    using True by (simp add: finish_url_def d_def CDN_DOMAIN_def BASE_DOMAIN_def)
  have dne: "d @ c \<noteq> []" by (simp add: d_def)
  have "hd ''?_x_tr_'' \<notin> set (''https://'' @ d)" "hd ''&_x_tr_'' \<notin> set (''https://'' @ d)"
    by (simp_all add: d_def)
  then have "contains ''?_x_tr_'' ((''https://'' @ d) @ c) = contains ''?_x_tr_'' c"
    "contains ''&_x_tr_'' ((''https://'' @ d) @ c) = contains ''&_x_tr_'' c"
    by (simp_all only: contains_skip_prefix list.simps(3) not_False_eq_True)
  with q r y have m: "\<not> contains ''?_x_tr_'' (finish_url c)" "\<not> contains ''&_x_tr_'' (finish_url c)"
    by simp_all
  have cl: "cleaned (finish_url c) = finish_url c"
    using c g m by (rule cleaned_fixed)
  have "finish_url (finish_url c) = finish_url c"
  proof (cases "CHR ''&'' \<in> set (finish_url c)")
    case False
    then have "CHR ''&'' \<notin> set (d @ c)" using y by simp
    with dne show ?thesis
      unfolding y by (intro finish_url_fixed) simp_all
  next
    case amp: True
    with a have "\<not> contains ''http'' (drop_chars 8 (finish_url c))" by blast
    moreover have "\<not> startswith (finish_url c) ''/''"
      unfolding y by (simp add: startswith_def)
    ultimately show ?thesis
      by (subst finish_url_def) simp
  qed
  with cl show ?thesis by simp
next
  case rel: False
  show ?thesis
  proof (cases "contains ''https://'' c \<and> contains ''http'' (drop_chars 8 c)")
    case nested: True
    show ?thesis
    proof (cases "re_search_url c")
      case None
      with rel nested have y: "finish_url c = c" by (simp add: finish_url_def)
      with c g q r have "cleaned c = c" by (simp add: cleaned_fixed)
      with y show ?thesis by simp
    next
      case (Some m)
      with rel nested have y: "finish_url c = m" by (simp add: finish_url_def)
      from re_search_url_shape [OF Some] obtain scheme run pre post where
        s: "scheme = ''https://'' \<or> scheme = ''http://''" and m: "m = scheme @ run"
        and ne: "run \<noteq> []" and amp: "CHR ''&'' \<notin> set run" and cm: "c = pre @ m @ post"
        by blast
      have sub: "\<And>p. contains p m \<Longrightarrow> contains p c"
        unfolding cm by (rule contains_append_left) (rule contains_append_right)
      from q r sub have "\<not> contains ''?_x_tr_'' m" "\<not> contains ''&_x_tr_'' m" by blast+
      with c g y have cl: "cleaned m = m" by (simp add: cleaned_fixed)
      have "finish_url m = m"
        unfolding m using s ne amp by (rule finish_url_fixed)
      with cl y show ?thesis by simp
    qed
  next
    case False
    with rel have y: "finish_url c = c" by (auto simp: finish_url_def)
    with c g q r have "cleaned c = c" by (simp add: cleaned_fixed)
    with y show ?thesis by simp
  qed
qed

text \<open>
  Claim C9, as stated, fails. Percent-decoding is applied once per call: \<open>%2541\<close> is
  normalized to \<open>%41\<close>, and \<open>%41\<close> to \<open>A\<close>.
\<close>

theorem normalize_twice_counterexample:
  "unwrap_google_url ''%2541'' = ''%41''
   \<and> unwrap_google_url (unwrap_google_url ''%2541'') = ''A''
   \<and> unwrap_google_url (unwrap_google_url ''%2541'') \<noteq> unwrap_google_url ''%2541''"
  by code_simp

text \<open>
  Claim C9, amended. The normalizer is a total function of its argument, and normalizing
  twice gives the same as normalizing once for every input whose normalized form contains
  no \<open>%\<close>, does not contain \<open>.translate.goog\<close>, and, when it has \<open>http\<close> after its first
  eight characters, contains no \<open>&\<close>.
\<close>

theorem normalize_twice:
  assumes "CHR ''%'' \<notin> set (unwrap_google_url x)"
    and "\<not> contains ''.translate.goog'' (unwrap_google_url x)"
    and "contains ''http'' (drop_chars 8 (unwrap_google_url x)) \<longrightarrow> CHR ''&'' \<notin> set (unwrap_google_url x)"
  shows "unwrap_google_url (unwrap_google_url x) = unwrap_google_url x"
proof (cases "x = []")
  case True
  then show ?thesis by (simp add: unwrap_steps)
next
  case False
  then have y: "unwrap_google_url x = finish_url (cleaned x)"
    by (simp add: unwrap_steps)
  have "cleaned (finish_url (cleaned x)) = finish_url (cleaned x)
      \<and> finish_url (finish_url (cleaned x)) = finish_url (cleaned x)"
    using assms cleaned_free [of x] unfolding y by (intro twice_when_clean) simp_all
  then show ?thesis
    unfolding y by (simp add: unwrap_steps)
qed

theorem normalize_twice_witness:
  "CHR ''%'' \<notin> set (unwrap_google_url ''https://pdalife-com.translate.goog/dwn/https-guide?_x_tr_sl=en'')
   \<and> \<not> contains ''.translate.goog''
        (unwrap_google_url ''https://pdalife-com.translate.goog/dwn/https-guide?_x_tr_sl=en'')
   \<and> contains ''http''
        (drop_chars 8 (unwrap_google_url ''https://pdalife-com.translate.goog/dwn/https-guide?_x_tr_sl=en''))
   \<and> CHR ''&'' \<notin> set (unwrap_google_url ''https://pdalife-com.translate.goog/dwn/https-guide?_x_tr_sl=en'')
   \<and> unwrap_google_url ''https://pdalife-com.translate.goog/dwn/https-guide?_x_tr_sl=en''
       = ''https://pdalife.com/dwn/https-guide''
   \<and> unwrap_google_url
        (unwrap_google_url ''https://pdalife-com.translate.goog/dwn/https-guide?_x_tr_sl=en'')
       = unwrap_google_url ''https://pdalife-com.translate.goog/dwn/https-guide?_x_tr_sl=en''"
proof -
  have v: "unwrap_google_url ''https://pdalife-com.translate.goog/dwn/https-guide?_x_tr_sl=en''
       = ''https://pdalife.com/dwn/https-guide''"
    by code_simp
  have h1: "CHR ''%'' \<notin> set (unwrap_google_url ''https://pdalife-com.translate.goog/dwn/https-guide?_x_tr_sl=en'')"
    unfolding v by simp
  have h2: "\<not> contains ''.translate.goog''
        (unwrap_google_url ''https://pdalife-com.translate.goog/dwn/https-guide?_x_tr_sl=en'')"
    unfolding v by code_simp
  have h3: "contains ''http''
        (drop_chars 8 (unwrap_google_url ''https://pdalife-com.translate.goog/dwn/https-guide?_x_tr_sl=en''))"
    unfolding v by code_simp
  have h4: "CHR ''&'' \<notin> set (unwrap_google_url ''https://pdalife-com.translate.goog/dwn/https-guide?_x_tr_sl=en'')"
    unfolding v by simp
  show ?thesis
    using normalize_twice [of "''https://pdalife-com.translate.goog/dwn/https-guide?_x_tr_sl=en''"]
      h1 h2 h3 h4 v by blast
qed

end
